theory Spec2Isabelle
  imports Main "HOL-Library.AList" "HOL-Library.Multiset" "HOL-Library.Product_Lexorder"
begin

section \<open>The rename engine of gopls (gopls/internal/lsp/source/rename.go)\<close>

text \<open>
  A shallow embedding of rename.go. Go strings are byte strings (\<open>string\<close>), offsets
  and token positions are natural numbers, every error return and every run-time panic
  of the source is a value of the type \<open>error\<close>, and the functions of the package
  that live in other files (the conflict checker, the reference collector, the
  position mappers) are fields of the record \<open>env\<close>, so that every theorem holds
  for whatever they compute.
\<close>

subsection \<open>Errors\<close>

text \<open>
  rename.go builds its errors with \<open>errors.New\<close> and \<open>fmt.Errorf\<close>; there is one
  constructor for each message of the file. \<open>Collaborator\<close> is an error returned by
  code outside rename.go, passed on unchanged; \<open>Panic\<close> is a run-time panic (a slice
  bound out of range, a failed type assertion, a nil dereference).
\<close>

datatype error =
    ClientNoFileRename
  | NoPackagesFound string
  | CantRenameMain
  | CantRenameXTest
  | PrepareMissingModuleInfo string
  | PrepareSamePath string string
  | BuildingPackage error
  | EmbeddedField
  | BlankIdentifier
  | NotValidIdentifier string
  | MissingModuleInfo string
  | RenameToTest
  | ModulePathSame string
  | SameNames string
  | InvalidIdentifier string
  | Conflicts string
  | NoEnclosingPath string
  | FailedUpdatePkgName string
  | Collaborator string
  | Panic

subsection \<open>Library functions of Go\<close>

text \<open>
  \<open>strings.HasPrefix\<close>, \<open>strings.HasSuffix\<close>, \<open>strings.TrimPrefix\<close> and
  \<open>strings.Split\<close> at a one-byte separator, on byte strings.
\<close>

definition HasPrefix :: "string \<Rightarrow> string \<Rightarrow> bool" where
  "HasPrefix s pre = (take (length pre) s = pre)"

definition HasSuffix :: "string \<Rightarrow> string \<Rightarrow> bool" where
  "HasSuffix s suf = (length suf \<le> length s \<and> drop (length s - length suf) s = suf)"

definition TrimPrefix :: "string \<Rightarrow> string \<Rightarrow> string" where
  "TrimPrefix s pre = (if HasPrefix s pre then drop (length pre) s else s)"

fun Split :: "string \<Rightarrow> char \<Rightarrow> string list" where
  "Split [] sep = [[]]"
| "Split (c # cs) sep =
     (if c = sep then [] # Split cs sep
      else (case Split cs sep of [] \<Rightarrow> [[c]] | l # ls \<Rightarrow> (c # l) # ls))"

text \<open>The decimal digits of \<open>%d\<close> in \<open>fmt.Sprintf\<close> and of \<open>fmt.Sprint\<close> on an index.\<close>

definition digit_char :: "nat \<Rightarrow> char" where
  "digit_char d = char_of (48 + d)"

fun decimal :: "nat \<Rightarrow> string" where
  "decimal n = (if n < 10 then [digit_char n] else decimal (n div 10) @ [digit_char (n mod 10)])"

declare decimal.simps [simp del]

subsection \<open>Positions, spans and edits\<close>

type_synonym uri = string

text \<open>\<open>token.Pos\<close>, byte offsets and line numbers are Go ints.\<close>

type_synonym pos = int

text \<open>\<open>span.Span\<close>: a URI and two points, each a line, a column and a byte offset.\<close>

record point =
  Line :: int
  Column :: int
  Offset :: int

record span =
  URI :: uri
  Start :: point
  End :: point

text \<open>\<open>diff.Edit\<close>: replace the bytes from \<open>Start\<close> to \<open>End\<close> by \<open>New\<close>.\<close>

record edit =
  edit_Start :: int
  edit_End :: int
  New :: string

text \<open>
  \<open>protocol.Position\<close> is a line and a character, \<open>protocol.Range\<close> a start and an
  end position. \<open>protocol.CompareRange\<close> orders ranges by start, then by end, and
  positions by line, then by character: the lexicographic order of the pairs.
\<close>

type_synonym position = "nat \<times> nat"
type_synonym range = "position \<times> position"

record TextEdit =
  Range :: range
  NewText :: string
  AnnotationID :: string

text \<open>
  A Go map from URIs to slices of edits, \<open>map[span.URI][]E\<close>, as a list of the keys
  with their slices. \<open>edits_at\<close> reads the map (the nil slice at an absent key),
  \<open>append_edit\<close> is \<open>m[u] = append(m[u], e)\<close> and \<open>append_edits\<close> is
  \<open>m[u] = append(m[u], es...)\<close>, which makes the key present even when \<open>es\<close> is
  empty. Go ranges over a map in no fixed order; every loop over a map in rename.go
  writes each key of the result once, so the order does not reach the result, except
  for which error comes back when several keys fail.
\<close>

type_synonym 'e edit_map = "(uri \<times> 'e list) list"

definition edits_at :: "'e edit_map \<Rightarrow> uri \<Rightarrow> 'e list" where
  "edits_at m u = (case map_of m u of None \<Rightarrow> [] | Some es \<Rightarrow> es)"

definition append_edits :: "'e edit_map \<Rightarrow> uri \<Rightarrow> 'e list \<Rightarrow> 'e edit_map" where
  "append_edits m u es = AList.update u (edits_at m u @ es) m"

definition append_edit :: "'e edit_map \<Rightarrow> uri \<Rightarrow> 'e \<Rightarrow> 'e edit_map" where
  "append_edit m u e = append_edits m u [e]"

subsection \<open>Syntax trees, objects and packages\<close>

text \<open>\<open>ast.Ident\<close>: \<open>End()\<close> is the position plus the length of the name.\<close>

record Ident =
  NamePos :: pos
  ident_Name :: string

definition Ident_End :: "Ident \<Rightarrow> pos" where
  "Ident_End i = NamePos i + int (length (ident_Name i))"

text \<open>
  \<open>ast.ImportSpec\<close>: the optional local name and the path literal (its text with the
  quotes, and its position). \<open>Pos()\<close> is the position of the name when there is one,
  of the path otherwise; the path literal ends after its text.
\<close>

record ImportSpec =
  imp_Name :: "Ident option"
  Path_ValuePos :: pos
  Path_Value :: string

definition ImportSpec_Pos :: "ImportSpec \<Rightarrow> pos" where
  "ImportSpec_Pos spec = (case imp_Name spec of Some n \<Rightarrow> NamePos n | None \<Rightarrow> Path_ValuePos spec)"

definition Path_End :: "ImportSpec \<Rightarrow> pos" where
  "Path_End spec = Path_ValuePos spec + int (length (Path_Value spec))"

text \<open>
  \<open>ast.Comment\<close> and \<open>ast.CommentGroup\<close>. A comment ends after its text; a group
  starts where its first comment starts and ends where its last one ends (on an empty
  list both index out of range).
\<close>

record Comment =
  Slash :: pos
  Text :: string

type_synonym CommentGroup = "Comment list"

definition Comment_End :: "Comment \<Rightarrow> pos" where
  "Comment_End c = Slash c + int (length (Text c))"

text \<open>
  The nodes that \<open>docComment\<close> and \<open>updatePkgName\<close> tell apart on the path from an
  identifier to the root of its file. A declaration carries its \<open>Doc\<close> field (nil or
  a comment group); an assignment carries whether its token is \<open>:=\<close>; the file
  carries its list of comment groups.
\<close>

datatype Node =
    FuncDecl "CommentGroup option"
  | Field "CommentGroup option"
  | GenDecl "CommentGroup option"
  | TypeSpec "CommentGroup option"
  | ValueSpec "CommentGroup option"
  | IdentNode
  | AssignStmt bool
  | ImportSpecNode ImportSpec
  | FileNode "CommentGroup list"
  | OtherNode

text \<open>
  \<open>token.File\<close>, as far as rename.go reads it: its name, the line of a position, the
  position where a line starts, and the offset of a position as \<open>safetoken.Offset\<close>
  gives it (rename.go drops the error of that call).
\<close>

record TokFile =
  tok_Name :: string
  tok_Line :: "pos \<Rightarrow> int"
  tok_LineStart :: "int \<Rightarrow> pos"
  tok_Offset :: "pos \<Rightarrow> int"

text \<open>
  \<open>types.Object\<close>. Objects are compared by identity (\<open>obj_id\<close>). A variable knows
  whether it is an embedded field; a function has a signature, whose receiver is nil
  or a variable whose type is an interface or not and prints as a string; a package
  name knows the name of the package it imports.
\<close>

record Recv =
  recv_IsInterface :: bool
  recv_TypeString :: string

datatype ObjectKind =
    Var bool
  | Func "Recv option"
  | PkgName string
  | OtherObject

record Object =
  obj_id :: nat
  obj_Name :: string
  obj_Pos :: pos
  obj_Pkg :: nat
  obj_kind :: ObjectKind

text \<open>\<open>ParsedGoFile\<close>: the URI, the identifier of the package clause, the imports.\<close>

record ParsedGoFile =
  pgf_URI :: uri
  File_Name :: "Ident option"
  File_Imports :: "ImportSpec list"

datatype ParseMode = ParseHeader | ParseExported | ParseFull

text \<open>
  \<open>Package\<close>: its name, parse mode and files; the identity of its \<open>types.Package\<close>
  (\<open>GetTypes\<close>) and the names bound in that package's scope; of its \<open>types.Info\<close>
  the implicit objects of import specs (\<open>Implicits\<close>) and the names bound in the
  scope of each file (\<open>Scopes\<close>, by the file's URI). A scope is the list of the names
  it binds: rename.go only asks whether \<open>Lookup\<close> finds one.
\<close>

record Package =
  pkg_Name :: string
  pkg_ParseMode :: ParseMode
  CompiledGoFiles :: "ParsedGoFile list"
  GetTypes :: nat
  Types_Scope :: "string list"
  Implicits :: "ImportSpec \<Rightarrow> Object option"
  Scopes :: "uri \<Rightarrow> string list option"

text \<open>\<open>Metadata\<close>: \<open>ModuleInfo\<close> is nil or carries the module path.\<close>

record Metadata =
  PackageID :: string
  PackageName :: string
  PackagePath :: string
  ModuleInfo :: "string option"

text \<open>
  \<open>qualifiedObject\<close> and \<open>ReferenceInfo\<close> (both declared in other files). Of the
  syntax node of a qualified object rename.go reads the position, the end and whether
  it is an import spec; the node and the source package are nil in the qualified
  objects that renameImports builds.
\<close>

record AstNode =
  node_Pos :: pos
  node_End :: pos
  node_isImportSpec :: bool

record qualifiedObject =
  qo_obj :: Object
  qo_pkg :: Package
  qo_sourcePkg :: "Package option"
  qo_node :: "AstNode option"

record ReferenceInfo =
  ref_Span :: "error + span"
  ref_ident :: "Ident option"
  ref_obj :: Object
  ref_pkg :: Package
  isDeclaration :: bool

text \<open>
  The \<open>renamer\<close>. \<open>packages\<close> maps the identity of a \<open>types.Package\<close> to its
  Package; \<open>objsToUpdate\<close> and \<open>satisfyConstraints\<close> are only read and written by the
  conflict checker. The context and the file set are read from the snapshot, and the
  method-set cache is left out.
\<close>

record renamer =
  refs :: "ReferenceInfo list"
  objsToUpdate :: "nat list"
  hadConflicts :: bool
  errors :: string
  from_name :: string
  to_name :: string
  satisfyConstraints :: "(nat \<times> nat) list"
  packages :: "nat \<rightharpoonup> Package"
  changeMethods :: bool

datatype ResourceOperationKind = Create | Rename_op | Delete

record PrepareItem =
  prep_Range :: range
  prep_Text :: string

record ChangeAnnotation =
  Label :: string
  NeedsConfirmation :: bool
  Description :: string

record OptionalEdits =
  opt_Edits :: "TextEdit edit_map"
  Annotations :: "(string \<times> ChangeAnnotation) list"

subsection \<open>What rename.go calls\<close>

text \<open>
  The methods of the snapshot and of the values it hands out, the functions of package
  \<open>source\<close> that rename.go calls and other files define, and the library functions on
  paths and string literals. They are parameters: nothing is assumed of them.
  \<^item> \<open>ParseGo\<close>, \<open>MetadataForFile\<close>, \<open>AllValidMetadata\<close>, \<open>WorkspacePackageByID\<close>,
    \<open>GetReverseDependencies\<close>: the snapshot's methods of these names;
    \<open>SupportedResourceOperations\<close>: the option of the snapshot's view;
    \<open>ReadFile\<close>: \<open>GetFile\<close> followed by \<open>Read\<close>.
  \<^item> \<open>isInPackageName\<close>, \<open>isValidIdentifier\<close>, \<open>qualifiedObjsAtProtocolPos\<close>,
    \<open>references\<close> (always called with the flags true, false, true),
    \<open>implementations\<close>, \<open>isDirective\<close>, \<open>pathEnclosingInterval\<close> (its token file
    and its path of nodes, innermost first; it is given nil when the renamer has no
    Package for the object): functions of package \<open>source\<close>.
  \<^item> \<open>check\<close>: the method \<open>(*renamer).check\<close>, the conflict checker, which reads
    and writes the renamer.
  \<^item> \<open>posToMappedRange\<close>: \<open>posToMappedRange\<close> followed by \<open>Range\<close>;
    \<open>MappedRange\<close>: \<open>NewMappedRange(f.Tok, f.Mapper, pos, end).Range()\<close> for the
    file \<open>f\<close>; \<open>Range_Span\<close>: \<open>span.NewRange(tokFile, pos, end).Span()\<close>;
    \<open>OffsetRange\<close>: the range that the column mapper of a file's content gives two
    offsets; \<open>fset_File\<close>: the file of the file set at a position;
    \<open>URIFromPath\<close>: \<open>span.URIFromPath\<close>.
  \<^item> \<open>path_Dir\<close>, \<open>path_Join\<close> (of two elements), \<open>Quote\<close>, \<open>Unquote\<close> (the
    empty string when the literal is malformed: rename.go drops the error): \<open>path.Dir\<close>,
    \<open>path.Join\<close>, \<open>strconv.Quote\<close>, \<open>strconv.Unquote\<close>.
\<close>

record env =
  ParseGo :: "uri \<Rightarrow> error + ParsedGoFile"
  isInPackageName :: "uri \<Rightarrow> ParsedGoFile \<Rightarrow> position \<Rightarrow> error + bool"
  SupportedResourceOperations :: "ResourceOperationKind list"
  MetadataForFile :: "uri \<Rightarrow> error + Metadata list"
  AllValidMetadata :: "error + Metadata list"
  WorkspacePackageByID :: "string \<Rightarrow> error + Package"
  GetReverseDependencies :: "string \<Rightarrow> error + Package list"
  ReadFile :: "uri \<Rightarrow> error + string"
  isValidIdentifier :: "string \<Rightarrow> bool"
  qualifiedObjsAtProtocolPos :: "uri \<Rightarrow> position \<Rightarrow> error + qualifiedObject list"
  references :: "qualifiedObject list \<Rightarrow> error + ReferenceInfo list"
  implementations :: "uri \<Rightarrow> position \<Rightarrow> error + qualifiedObject list"
  isDirective :: "string \<Rightarrow> bool"
  pathEnclosingInterval :: "Package option \<Rightarrow> pos \<Rightarrow> pos \<Rightarrow> TokFile \<times> Node list"
  check :: "renamer \<Rightarrow> Object \<Rightarrow> renamer"
  posToMappedRange :: "Package option \<Rightarrow> pos \<Rightarrow> pos \<Rightarrow> error + range"
  MappedRange :: "ParsedGoFile \<Rightarrow> pos \<Rightarrow> pos \<Rightarrow> error + range"
  Range_Span :: "TokFile \<Rightarrow> pos \<Rightarrow> pos \<Rightarrow> error + span"
  OffsetRange :: "uri \<Rightarrow> string \<Rightarrow> int \<Rightarrow> int \<Rightarrow> error + range"
  fset_File :: "pos \<Rightarrow> TokFile"
  URIFromPath :: "string \<Rightarrow> uri"
  path_Dir :: "string \<Rightarrow> string"
  path_Join :: "string \<Rightarrow> string \<Rightarrow> string"
  Quote :: "string \<Rightarrow> string"
  Unquote :: "string \<Rightarrow> string"

subsection \<open>seenPackageRename\<close>

text \<open>
  \<open>type seenPackageRename map[seenPackageKey]bool\<close>, the key a struct of the file
  URI and the import path. A Go map read at an absent key gives the zero value
  \<open>false\<close>.
\<close>

type_synonym seenPackageKey = "uri \<times> string"
type_synonym seenPackageRename = "seenPackageKey \<rightharpoonup> bool"

definition seen_lookup :: "seenPackageRename \<Rightarrow> seenPackageKey \<Rightarrow> bool" where
  "seen_lookup s key = (case s key of None \<Rightarrow> False | Some b \<Rightarrow> b)"

text \<open>
  \<open>func (s seenPackageRename) add(uri, importPath) bool\<close>: the map is mutated in
  place, so the model returns the answer together with the map afterwards.
\<close>

definition add :: "seenPackageRename \<Rightarrow> uri \<Rightarrow> string \<Rightarrow> bool \<times> seenPackageRename" where
  "add s u importPath =
     (let key = (u, importPath);
          seen = seen_lookup s key
      in (seen, if \<not> seen then s(key \<mapsto> True) else s))"

text \<open>A run of calls to \<open>add\<close>, one for each pair of the list, in order.\<close>

fun add_all :: "seenPackageRename \<Rightarrow> seenPackageKey list \<Rightarrow> seenPackageRename" where
  "add_all s [] = s"
| "add_all s (k # ks) = add_all (snd (add s (fst k) (snd k))) ks"

lemma seen_lookup_add:
  "seen_lookup (snd (add s u p)) k = (k = (u, p) \<or> seen_lookup s k)"
  by (auto simp: add_def seen_lookup_def Let_def)

lemma seen_lookup_add_all:
  "seen_lookup (add_all s ks) k = (k \<in> set ks \<or> seen_lookup s k)"
proof (induction ks arbitrary: s)
  case Nil
  show ?case by simp
next
  case (Cons a ks)
  have "seen_lookup (snd (add s (fst a) (snd a))) k = (k = a \<or> seen_lookup s k)"
    using seen_lookup_add [of s "fst a" "snd a" k] by simp
  with Cons.IH [of "snd (add s (fst a) (snd a))"] show ?case
    by auto
qed

text \<open>
  C10. On the empty map of a fresh rename, and after any calls for other pairs, the
  first call of \<open>add\<close> with a pair answers false and records it; after that, whatever
  further calls are made (for this pair or others), a call with the pair answers true.
  A recorded pair stays recorded through every call.
\<close>

theorem seenPackageRename_add_first_then_seen:
  "((u, p) \<notin> set before \<longrightarrow>
      fst (add (add_all Map.empty before) u p) = False)
   \<and> seen_lookup (snd (add (add_all Map.empty before) u p)) (u, p)
   \<and> fst (add (add_all (snd (add (add_all Map.empty before) u p)) later) u p) = True
   \<and> (seen_lookup s k \<longrightarrow> seen_lookup (snd (add s u' p')) k)
   \<and> (seen_lookup s k \<longrightarrow> seen_lookup (add_all s later) k)"
proof -
  have a: "fst (add t u p) = seen_lookup t (u, p)" for t
    by (simp add: add_def Let_def)
  have e: "seen_lookup Map.empty k' = False" for k'
    by (simp add: seen_lookup_def)
  show ?thesis
    by (simp add: a e seen_lookup_add seen_lookup_add_all)
qed

theorem seenPackageRename_add_witness:
  "fst (add (add_all Map.empty [(''b.go'', ''a/p'')]) ''a.go'' ''a/p'') = False
   \<and> fst (add (add_all (snd (add (add_all Map.empty [(''b.go'', ''a/p'')]) ''a.go'' ''a/p''))
        [(''c.go'', ''a/p''), (''a.go'', ''a/q'')]) ''a.go'' ''a/p'') = True"
  using seenPackageRename_add_first_then_seen
    [of "''a.go''" "''a/p''" "[(''b.go'', ''a/p'')]" "[(''c.go'', ''a/p''), (''a.go'', ''a/q'')]"
        Map.empty "(''x'', ''y'')" "''x''" "''y''"]
  by simp

subsection \<open>renameObj: the checks and the conflict loop\<close>

text \<open>\<open>checkRenamable\<close>: nil (\<open>None\<close>) when the object may be renamed.\<close>

definition checkRenamable :: "Object \<Rightarrow> error option" where
  "checkRenamable ob =
     (if (case obj_kind ob of Var embedded \<Rightarrow> embedded | _ \<Rightarrow> False) then Some EmbeddedField
      else if obj_Name ob = ''_'' then Some BlankIdentifier
      else None)"

text \<open>
  The loop of renameObj that decides \<open>changeMethods\<close> when \<open>renameImpls\<close> is false:
  some reference is to a function whose receiver is not nil and is an interface.
\<close>

definition refersToInterfaceMethod :: "ReferenceInfo \<Rightarrow> bool" where
  "refersToInterfaceMethod ref =
     (case obj_kind (ref_obj ref) of
        Func (Some recv) \<Rightarrow> recv_IsInterface recv
      | _ \<Rightarrow> False)"

text \<open>
  The renamer as renameObj builds it, after the loop that fills \<open>packages\<close> (a later
  reference overwrites an earlier one at the same key).
\<close>

definition new_renamer :: "Object \<Rightarrow> string \<Rightarrow> bool \<Rightarrow> ReferenceInfo list \<Rightarrow> renamer" where
  "new_renamer ob newName renameImpls rs =
     \<lparr> refs = rs, objsToUpdate = [], hadConflicts = False, errors = [],
       from_name = obj_Name ob, to_name = newName, satisfyConstraints = [],
       packages = fold (\<lambda>ref m. m(GetTypes (ref_pkg ref) \<mapsto> ref_pkg ref)) rs Map.empty,
       changeMethods = (renameImpls \<or> list_ex refersToInterfaceMethod rs) \<rparr>"

text \<open>
  The checking loop: \<open>for _, ref := range refs { r.check(ref.obj); if r.hadConflicts
  { break } }\<close>. The result is the renamer after the loop, with the references that
  the loop passed to \<open>r.check\<close>, in the order of the calls.
\<close>

fun check_refs :: "env \<Rightarrow> renamer \<Rightarrow> ReferenceInfo list \<Rightarrow> renamer \<times> ReferenceInfo list" where
  "check_refs e r [] = (r, [])"
| "check_refs e r (ref # rest) =
     (let r' = check e r (ref_obj ref)
      in if hadConflicts r' then (r', [ref])
         else (case check_refs e r' rest of (r'', checked) \<Rightarrow> (r'', ref # checked)))"

subsection \<open>The doc-comment pattern\<close>

text \<open>
  \<open>regexp.Compile(`\b` + r.from + `\b`)\<close> and \<open>FindAllIndex(line, -1)\<close>. The name of
  an object whose doc comment is rewritten is an identifier, so the pattern is the
  name's bytes between two \<open>\b\<close>. In Go's regexp \<open>\b\<close> is the ASCII word boundary:
  exactly one of the bytes before and after the position is one of \<open>0-9A-Za-z_\<close>,
  the ends of the text counting as no word byte. \<open>FindAllIndex\<close> gives the matches
  from left to right, each search starting where the match before it ended (one byte
  further after an empty match).
\<close>

definition is_word_char :: "char \<Rightarrow> bool" where
  "is_word_char c =
     (let n = of_char c :: nat
      in (48 \<le> n \<and> n \<le> 57) \<or> (65 \<le> n \<and> n \<le> 90) \<or> (97 \<le> n \<and> n \<le> 122) \<or> n = 95)"

definition word_boundary :: "string \<Rightarrow> nat \<Rightarrow> bool" where
  "word_boundary s i =
     ((0 < i \<and> i \<le> length s \<and> is_word_char (s ! (i - 1)))
        \<noteq> (i < length s \<and> is_word_char (s ! i)))"

definition match_at :: "string \<Rightarrow> string \<Rightarrow> nat \<Rightarrow> bool" where
  "match_at name line i =
     (i + length name \<le> length line
      \<and> take (length name) (drop i line) = name
      \<and> word_boundary line i \<and> word_boundary line (i + length name))"

function FindAllIndex :: "string \<Rightarrow> string \<Rightarrow> nat \<Rightarrow> (nat \<times> nat) list" where
  "FindAllIndex name line i =
     (if length line < i + length name then []
      else if match_at name line i
           then (i, i + length name) # FindAllIndex name line (i + max 1 (length name))
           else FindAllIndex name line (i + 1))"
  by pat_completeness auto
termination
  by (relation "measure (\<lambda>(name, line, i). length line + 1 - i)") auto

declare FindAllIndex.simps [simp del]

subsection \<open>docComment and updatePkgName\<close>

text \<open>
  The inner loop of \<open>docComment\<close> over the comment groups of the file: the first
  group that does not start after the identifier and whose last line is the line
  just above the identifier's.
\<close>

fun comment_above :: "TokFile \<Rightarrow> pos \<Rightarrow> int \<Rightarrow> CommentGroup list \<Rightarrow> error + CommentGroup option" where
  "comment_above tf idPos identLine [] = Inr None"
| "comment_above tf idPos identLine (g # gs) =
     (case g of
        [] \<Rightarrow> Inl Panic
      | c # _ \<Rightarrow>
          if idPos < Slash c then comment_above tf idPos identLine gs
          else if tok_Line tf (Comment_End (last g)) + 1 = identLine then Inr (Some g)
          else comment_above tf idPos identLine gs)"

text \<open>
  The loop of \<open>docComment\<close> over the enclosing nodes, innermost first. \<open>nodes\<close> is
  the whole path: the assignment case reads its last element, which must be the file.
\<close>

fun docComment_nodes :: "TokFile \<Rightarrow> Ident \<Rightarrow> Node list \<Rightarrow> Node list \<Rightarrow> error + CommentGroup option" where
  "docComment_nodes tf idt nodes [] = Inr None"
| "docComment_nodes tf idt nodes (n # ns) =
     (case n of
        FuncDecl doc \<Rightarrow> Inr doc
      | Field doc \<Rightarrow> Inr doc
      | GenDecl doc \<Rightarrow> Inr doc
      | TypeSpec doc \<Rightarrow> (if doc \<noteq> None then Inr doc else docComment_nodes tf idt nodes ns)
      | ValueSpec doc \<Rightarrow> (if doc \<noteq> None then Inr doc else docComment_nodes tf idt nodes ns)
      | IdentNode \<Rightarrow> docComment_nodes tf idt nodes ns
      | AssignStmt define \<Rightarrow>
          if \<not> define then Inr None
          else (case last nodes of
                  FileNode comments \<Rightarrow>
                    (case comment_above tf (NamePos idt) (tok_Line tf (NamePos idt)) comments of
                       Inl err \<Rightarrow> Inl err
                     | Inr (Some g) \<Rightarrow> Inr (Some g)
                     | Inr None \<Rightarrow> docComment_nodes tf idt nodes ns)
                | _ \<Rightarrow> Inl Panic)
      | _ \<Rightarrow> Inr None)"

definition docComment :: "env \<Rightarrow> Package \<Rightarrow> Ident \<Rightarrow> error + CommentGroup option" where
  "docComment e p idt =
     (case pathEnclosingInterval e (Some p) (NamePos idt) (Ident_End idt) of
        (tf, nodes) \<Rightarrow> docComment_nodes tf idt nodes nodes)"

text \<open>\<open>pkgName.Imported().Name()\<close>, for an object that is a package name.\<close>

definition Imported_Name :: "Object \<Rightarrow> string" where
  "Imported_Name ob = (case obj_kind ob of PkgName n \<Rightarrow> n | _ \<Rightarrow> [])"

definition updatePkgName :: "env \<Rightarrow> renamer \<Rightarrow> Object \<Rightarrow> error + edit" where
  "updatePkgName e r pkgName =
     (case pathEnclosingInterval e (packages r (obj_Pkg pkgName)) (obj_Pos pkgName) (obj_Pos pkgName) of
        (tokFile, path) \<Rightarrow>
          if length path < 2 then Inl (NoEnclosingPath (obj_Name pkgName))
          else (case path ! 1 of
                  ImportSpecNode spec \<Rightarrow>
                    (let newText = (if Imported_Name pkgName \<noteq> to_name r then to_name r @ '' '' else [])
                     in case Range_Span e tokFile (ImportSpec_Pos spec) (Path_ValuePos spec) of
                          Inl err \<Rightarrow> Inl err
                        | Inr spn \<Rightarrow>
                            Inr \<lparr> edit_Start = Offset (Start spn), edit_End = Offset (End spn),
                                  New = newText \<rparr>)
                | _ \<Rightarrow> Inl (FailedUpdatePkgName (obj_Name pkgName))))"

subsection \<open>update\<close>

text \<open>The edits of one line of a comment: one for each match of the pattern.\<close>

definition line_edits :: "renamer \<Rightarrow> TokFile \<Rightarrow> pos \<Rightarrow> string \<Rightarrow> edit list" where
  "line_edits r tf lineStart line =
     map (\<lambda>(a, b). \<lparr> edit_Start = tok_Offset tf (lineStart + int a),
                     edit_End = tok_Offset tf (lineStart + int b),
                     New = to_name r \<rparr>)
       (FindAllIndex (from_name r) line 0)"

text \<open>
  The loop over the lines of a comment, \<open>i\<close> the index of the line: the first line
  starts where the comment starts, line \<open>i\<close> where line \<open>commentLine + i\<close> of the
  file starts.
\<close>

fun lines_edits :: "renamer \<Rightarrow> TokFile \<Rightarrow> Comment \<Rightarrow> int \<Rightarrow> nat \<Rightarrow> string list \<Rightarrow> edit list" where
  "lines_edits r tf c commentLine i [] = []"
| "lines_edits r tf c commentLine i (line # rest) =
     line_edits r tf (if 0 < i then tok_LineStart tf (commentLine + int i) else Slash c) line
       @ lines_edits r tf c commentLine (Suc i) rest"

definition comment_edits :: "env \<Rightarrow> renamer \<Rightarrow> Comment \<Rightarrow> uri \<times> edit list" where
  "comment_edits e r c =
     (let tokFile = fset_File e (Slash c)
      in (URIFromPath e (tok_Name tokFile),
          lines_edits r tokFile c (tok_Line tokFile (Slash c)) 0 (Split (Text c) (CHR 0x0A))))"

text \<open>The loop over the comments of the doc: a directive is skipped.\<close>

fun doc_edits :: "env \<Rightarrow> renamer \<Rightarrow> Comment list \<Rightarrow> edit edit_map \<Rightarrow> edit edit_map" where
  "doc_edits e r [] result = result"
| "doc_edits e r (c # cs) result =
     (if isDirective e (Text c) then doc_edits e r cs result
      else (case comment_edits e r c of
              (u, es) \<Rightarrow> doc_edits e r cs (fold (\<lambda>ed m. append_edit m u ed) es result)))"

definition is_PkgName :: "Object \<Rightarrow> bool" where
  "is_PkgName ob = (case obj_kind ob of PkgName n \<Rightarrow> True | _ \<Rightarrow> False)"

text \<open>
  The body of the loop of \<open>update\<close> for a reference whose span has not been seen.
  (The pattern of the doc comments is compiled before the loop; for an identifier
  that cannot fail.)
\<close>

definition update_ref :: "env \<Rightarrow> renamer \<Rightarrow> ReferenceInfo \<Rightarrow> span \<Rightarrow> edit edit_map \<Rightarrow> error + edit edit_map" where
  "update_ref e r ref refSpan result =
     (if is_PkgName (ref_obj ref) \<and> isDeclaration ref then
        (case updatePkgName e r (ref_obj ref) of
           Inl err \<Rightarrow> Inl err
         | Inr ed \<Rightarrow> Inr (append_edit result (URI refSpan) ed))
      else
        (let result1 = append_edit result (URI refSpan)
               \<lparr> edit_Start = Offset (Start refSpan), edit_End = Offset (End refSpan),
                 New = to_name r \<rparr>
         in if \<not> isDeclaration ref then Inr result1
            else (case ref_ident ref of
                    None \<Rightarrow> Inr result1
                  | Some idt \<Rightarrow>
                      (case docComment e (ref_pkg ref) idt of
                         Inl err \<Rightarrow> Inl err
                       | Inr None \<Rightarrow> Inr result1
                       | Inr (Some doc) \<Rightarrow> Inr (doc_edits e r doc result1)))))"

fun update_refs :: "env \<Rightarrow> renamer \<Rightarrow> ReferenceInfo list \<Rightarrow> span set \<Rightarrow> edit edit_map \<Rightarrow> error + edit edit_map" where
  "update_refs e r [] seen result = Inr result"
| "update_refs e r (ref # rest) seen result =
     (case ref_Span ref of
        Inl err \<Rightarrow> Inl err
      | Inr refSpan \<Rightarrow>
          if refSpan \<in> seen then update_refs e r rest seen result
          else (case update_ref e r ref refSpan result of
                  Inl err \<Rightarrow> Inl err
                | Inr result' \<Rightarrow> update_refs e r rest (insert refSpan seen) result'))"

definition update :: "env \<Rightarrow> renamer \<Rightarrow> error + edit edit_map" where
  "update e r = update_refs e r (refs r) {} []"

subsection \<open>renameObj\<close>

text \<open>
  Modelled from the spec: \<open>ToProtocolEdits\<close> is defined in another file. Edits are
  byte-offset ranges, translated one by one into the caller's line and column
  coordinates through the mapper of the file's content; a failing translation fails
  the whole.
\<close>

fun ToProtocolEdits :: "env \<Rightarrow> uri \<Rightarrow> string \<Rightarrow> edit list \<Rightarrow> error + TextEdit list" where
  "ToProtocolEdits e u content [] = Inr []"
| "ToProtocolEdits e u content (ed # eds) =
     (case OffsetRange e u content (edit_Start ed) (edit_End ed) of
        Inl err \<Rightarrow> Inl err
      | Inr rng \<Rightarrow>
          (case ToProtocolEdits e u content eds of
             Inl err \<Rightarrow> Inl err
           | Inr tes \<Rightarrow> Inr (\<lparr> Range = rng, NewText = New ed, AnnotationID = [] \<rparr> # tes)))"

text \<open>The last loop of renameObj, over the files of the changes.\<close>

fun protocol_edits :: "env \<Rightarrow> edit edit_map \<Rightarrow> error + TextEdit edit_map" where
  "protocol_edits e [] = Inr []"
| "protocol_edits e ((u, eds) # rest) =
     (case ReadFile e u of
        Inl err \<Rightarrow> Inl err
      | Inr content \<Rightarrow>
          (case ToProtocolEdits e u content eds of
             Inl err \<Rightarrow> Inl err
           | Inr tes \<Rightarrow>
               (case protocol_edits e rest of
                  Inl err \<Rightarrow> Inl err
                | Inr m \<Rightarrow> Inr ((u, tes) # m))))"

text \<open>
  \<open>renameObj\<close>. \<open>Inl\<close> is the return of a nil map with an error, \<open>Inr\<close> the return
  of the edits with a nil error. (\<open>qos[0]\<close> panics on an empty slice. The conflict
  error is \<open>fmt.Errorf(r.errors)\<close>, the checker's message.)
\<close>

definition renameObj :: "env \<Rightarrow> string \<Rightarrow> qualifiedObject list \<Rightarrow> bool \<Rightarrow> error + TextEdit edit_map" where
  "renameObj e newName qos renameImpls =
     (case qos of
        [] \<Rightarrow> Inl Panic
      | q # _ \<Rightarrow>
          (case checkRenamable (qo_obj q) of
             Some err \<Rightarrow> Inl err
           | None \<Rightarrow>
               if obj_Name (qo_obj q) = newName then Inl (SameNames newName)
               else if \<not> isValidIdentifier e newName then Inl (InvalidIdentifier newName)
               else (case references e qos of
                       Inl err \<Rightarrow> Inl err
                     | Inr rs \<Rightarrow>
                         (let r = fst (check_refs e (new_renamer (qo_obj q) newName renameImpls rs) rs)
                          in if hadConflicts r then Inl (Conflicts (errors r))
                             else (case update e r of
                                     Inl err \<Rightarrow> Inl err
                                   | Inr changes \<Rightarrow> protocol_edits e changes)))))"

subsection \<open>A small workspace for the examples\<close>

text \<open>
  Concrete values on which the theorems below are evaluated: a token file whose
  offsets are its positions, a package without files, objects and references given by
  their identity, name and span, and an environment in which every call to a
  collaborator fails until an example says what it returns.
\<close>

definition ex_tokFile :: TokFile where
  "ex_tokFile = \<lparr> tok_Name = ''b.go'', tok_Line = (\<lambda>p. p div 100), tok_LineStart = (\<lambda>l. l * 100),
                  tok_Offset = (\<lambda>p. p) \<rparr>"

definition ex_pkg :: Package where
  "ex_pkg = \<lparr> pkg_Name = ''b'', pkg_ParseMode = ParseFull, CompiledGoFiles = [], GetTypes = 0,
              Types_Scope = [], Implicits = (\<lambda>spec. None), Scopes = (\<lambda>u. None) \<rparr>"

definition ex_obj :: "nat \<Rightarrow> string \<Rightarrow> ObjectKind \<Rightarrow> Object" where
  "ex_obj i n k = \<lparr> obj_id = i, obj_Name = n, obj_Pos = 0, obj_Pkg = 0, obj_kind = k \<rparr>"

definition ex_point :: "int \<Rightarrow> point" where
  "ex_point off = \<lparr> Line = off div 100, Column = off mod 100, Offset = off \<rparr>"

definition ex_span :: "uri \<Rightarrow> int \<Rightarrow> int \<Rightarrow> span" where
  "ex_span u a b = \<lparr> URI = u, Start = ex_point a, End = ex_point b \<rparr>"

definition ex_ref :: "Object \<Rightarrow> uri \<Rightarrow> int \<Rightarrow> int \<Rightarrow> bool \<Rightarrow> ReferenceInfo" where
  "ex_ref ob u a b decl =
     \<lparr> ref_Span = Inr (ex_span u a b), ref_ident = None, ref_obj = ob, ref_pkg = ex_pkg,
       isDeclaration = decl \<rparr>"

definition ex_qo :: "Object \<Rightarrow> qualifiedObject" where
  "ex_qo ob = \<lparr> qo_obj = ob, qo_pkg = ex_pkg, qo_sourcePkg = Some ex_pkg,
               qo_node = Some \<lparr> node_Pos = obj_Pos ob, node_End = obj_Pos ob + int (length (obj_Name ob)),
                               node_isImportSpec = False \<rparr> \<rparr>"

definition ex_env :: env where
  "ex_env =
     \<lparr> ParseGo = (\<lambda>u. Inl (Collaborator ''ParseGo'')),
       isInPackageName = (\<lambda>u f pp. Inr False),
       SupportedResourceOperations = [],
       MetadataForFile = (\<lambda>u. Inr []),
       AllValidMetadata = Inr [],
       WorkspacePackageByID = (\<lambda>i. Inl (Collaborator ''WorkspacePackageByID'')),
       GetReverseDependencies = (\<lambda>i. Inr []),
       ReadFile = (\<lambda>u. Inr []),
       isValidIdentifier = (\<lambda>n. n \<noteq> [] \<and> list_all is_word_char n),
       qualifiedObjsAtProtocolPos = (\<lambda>u pp. Inl (Collaborator ''no object found'')),
       references = (\<lambda>qos. Inr []),
       implementations = (\<lambda>u pp. Inr []),
       isDirective = (\<lambda>t. HasPrefix t ''//go:''),
       pathEnclosingInterval = (\<lambda>p a b. (ex_tokFile, [])),
       check = (\<lambda>r ob. r \<lparr> objsToUpdate := obj_id ob # objsToUpdate r \<rparr>),
       posToMappedRange = (\<lambda>p a b. Inr ((0, nat a), (0, nat b))),
       MappedRange = (\<lambda>f a b. Inr ((0, nat a), (0, nat b))),
       Range_Span = (\<lambda>tf a b. Inr (ex_span (tok_Name tf) a b)),
       OffsetRange = (\<lambda>u content a b. Inr ((0, nat a), (0, nat b))),
       fset_File = (\<lambda>p. ex_tokFile),
       URIFromPath = (\<lambda>n. n),
       path_Dir = (\<lambda>p. p),
       path_Join = (\<lambda>a b. a @ ''/'' @ b),
       Quote = (\<lambda>t. CHR 0x22 # t @ [CHR 0x22]),
       Unquote = (\<lambda>t. butlast (tl t)) \<rparr>"

subsection \<open>The conflict loop stops at the first conflict\<close>

lemma check_refs_first_conflict:
  assumes "\<not> hadConflicts (fst (check_refs e r pre))"
      and "hadConflicts (check e (fst (check_refs e r pre)) (ref_obj ref))"
  shows "check_refs e r (pre @ ref # post)
           = (check e (fst (check_refs e r pre)) (ref_obj ref), pre @ [ref])"
  using assms
proof (induction pre arbitrary: r)
  case Nil
  then show ?case by simp
next
  case (Cons x xs)
  let ?r' = "check e r (ref_obj x)"
  have nc: "\<not> hadConflicts ?r'"
    using Cons.prems(1) by (auto simp: Let_def)
  have step: "fst (check_refs e r (x # xs)) = fst (check_refs e ?r' xs)"
    using nc by (simp add: Let_def split: prod.splits)
  have "check_refs e ?r' (xs @ ref # post)
          = (check e (fst (check_refs e ?r' xs)) (ref_obj ref), xs @ [ref])"
    using Cons.IH [of ?r'] Cons.prems step by simp
  then show ?case
    using nc step by (simp add: Let_def)
qed

text \<open>
  C1. In a single-symbol rename that reaches the conflict checker (the object is
  renamable, the new name differs from the old one and is a valid identifier, the
  references were collected), if \<open>ref\<close> is the first reference for which the checker
  reports a conflict, then renameObj returns the error with the checker's message and
  no edit map at all, and the loop called the checker for the references up to
  \<open>ref\<close> and for none after it.
\<close>

theorem renameObj_stops_at_first_conflict:
  assumes "qos = q # qs"
      and "checkRenamable (qo_obj q) = None"
      and "obj_Name (qo_obj q) \<noteq> newName"
      and "isValidIdentifier e newName"
      and "references e qos = Inr (pre @ ref # post)"
      and "r0 = new_renamer (qo_obj q) newName renameImpls (pre @ ref # post)"
      and "\<not> hadConflicts (fst (check_refs e r0 pre))"
      and "hadConflicts (check e (fst (check_refs e r0 pre)) (ref_obj ref))"
  shows "renameObj e newName qos renameImpls
           = Inl (Conflicts (errors (check e (fst (check_refs e r0 pre)) (ref_obj ref))))
         \<and> snd (check_refs e r0 (pre @ ref # post)) = pre @ [ref]"
proof -
  have loop: "check_refs e r0 (pre @ ref # post)
                = (check e (fst (check_refs e r0 pre)) (ref_obj ref), pre @ [ref])"
    using check_refs_first_conflict [OF assms(7) assms(8)] .
  have "renameObj e newName qos renameImpls
          = Inl (Conflicts (errors (check e (fst (check_refs e r0 pre)) (ref_obj ref))))"
    unfolding renameObj_def
    using assms(1-5) assms(8) loop
    by (simp add: Let_def assms(6) [symmetric])
  then show ?thesis
    using loop by simp
qed

text \<open>
  The example: three references to objects 1, 2 and 3, and a checker that reports a
  conflict for object 2. The rename fails with the message and object 3 is never
  checked.
\<close>

definition ex_conflict_env :: env where
  "ex_conflict_env =
     ex_env \<lparr> references :=
                (\<lambda>qos. Inr [ex_ref (ex_obj 1 ''x'' OtherObject) ''b.go'' 10 11 True,
                             ex_ref (ex_obj 2 ''x'' OtherObject) ''b.go'' 20 21 False,
                             ex_ref (ex_obj 3 ''x'' OtherObject) ''b.go'' 30 31 False]),
              check :=
                (\<lambda>r ob. if obj_id ob = 2 then r \<lparr> hadConflicts := True, errors := ''conflict'' \<rparr>
                         else r \<lparr> objsToUpdate := obj_id ob # objsToUpdate r \<rparr>) \<rparr>"

theorem renameObj_stops_at_first_conflict_witness:
  "renameObj ex_conflict_env ''y'' [ex_qo (ex_obj 1 ''x'' OtherObject)] False
     = Inl (Conflicts ''conflict'')
   \<and> snd (check_refs ex_conflict_env
            (new_renamer (ex_obj 1 ''x'' OtherObject) ''y'' False
               [ex_ref (ex_obj 1 ''x'' OtherObject) ''b.go'' 10 11 True,
                ex_ref (ex_obj 2 ''x'' OtherObject) ''b.go'' 20 21 False,
                ex_ref (ex_obj 3 ''x'' OtherObject) ''b.go'' 30 31 False])
            [ex_ref (ex_obj 1 ''x'' OtherObject) ''b.go'' 10 11 True,
             ex_ref (ex_obj 2 ''x'' OtherObject) ''b.go'' 20 21 False,
             ex_ref (ex_obj 3 ''x'' OtherObject) ''b.go'' 30 31 False])
       = [ex_ref (ex_obj 1 ''x'' OtherObject) ''b.go'' 10 11 True,
          ex_ref (ex_obj 2 ''x'' OtherObject) ''b.go'' 20 21 False]"
  using renameObj_stops_at_first_conflict
    [of "[ex_qo (ex_obj 1 ''x'' OtherObject)]" "ex_qo (ex_obj 1 ''x'' OtherObject)" "[]" "''y''"
        ex_conflict_env
        "[ex_ref (ex_obj 1 ''x'' OtherObject) ''b.go'' 10 11 True]"
        "ex_ref (ex_obj 2 ''x'' OtherObject) ''b.go'' 20 21 False"
        "[ex_ref (ex_obj 3 ''x'' OtherObject) ''b.go'' 30 31 False]"
        "new_renamer (ex_obj 1 ''x'' OtherObject) ''y'' False
               [ex_ref (ex_obj 1 ''x'' OtherObject) ''b.go'' 10 11 True,
                ex_ref (ex_obj 2 ''x'' OtherObject) ''b.go'' 20 21 False,
                ex_ref (ex_obj 3 ''x'' OtherObject) ''b.go'' 30 31 False]"
        False]
  by (simp add: ex_conflict_env_def ex_env_def ex_qo_def ex_obj_def ex_ref_def checkRenamable_def
        is_word_char_def new_renamer_def Let_def)

subsection \<open>Edit maps, the pattern's matches, doc comments\<close>

lemma edits_at_Nil: "edits_at [] u = []"
  by (simp add: edits_at_def)

lemma edits_at_append_edits:
  "edits_at (append_edits m u es) u' = (if u' = u then edits_at m u @ es else edits_at m u')"
  by (simp add: edits_at_def append_edits_def update_conv')

lemma edits_at_append_edit:
  "edits_at (append_edit m u ed) u' = (if u' = u then edits_at m u @ [ed] else edits_at m u')"
  by (simp add: append_edit_def edits_at_append_edits)

lemma edits_at_fold_append_edit:
  "edits_at (fold (\<lambda>ed m. append_edit m u ed) es m) u'
     = (if u' = u then edits_at m u @ es else edits_at m u')"
  by (induction es arbitrary: m) (auto simp: edits_at_append_edit)







lemma doc_edits_at:
  "edits_at (doc_edits e r doc m) u
     = edits_at m u
         @ concat (map (\<lambda>c. if isDirective e (Text c) \<or> fst (comment_edits e r c) \<noteq> u then []
                             else snd (comment_edits e r c)) doc)"
proof (induction doc arbitrary: m)
  case Nil
  show ?case by simp
next
  case (Cons c cs)
  show ?case
  proof (cases "isDirective e (Text c)")
    case True
    then show ?thesis using Cons.IH [of m] by simp
  next
    case False
    obtain cu es where ce: "comment_edits e r c = (cu, es)"
      by (cases "comment_edits e r c")
    show ?thesis
      using False ce Cons.IH [of "fold (\<lambda>ed m. append_edit m cu ed) es m"]
      by (simp add: edits_at_fold_append_edit)
  qed
qed

text \<open>The edit that replaces the identifier of a reference by the new name.\<close>

definition ident_edit :: "renamer \<Rightarrow> span \<Rightarrow> edit" where
  "ident_edit r sp = \<lparr> edit_Start = Offset (Start sp), edit_End = Offset (End sp), New = to_name r \<rparr>"










subsection \<open>The edit of an import spec\<close>

text \<open>
  C6. For the declaring occurrence of a package name whose import spec is found (the
  second node of the enclosing path), \<open>updatePkgName\<close> returns one edit and
  \<open>update\<close> appends it, and nothing else, to the edits of the reference's file. The
  edit replaces the span from the start of the import spec (the alias when there is
  one, the path literal otherwise, where the span is empty) to the start of the path
  literal. Its text is empty when the new name is the current name of the target of
  the import, the imported package (\<open>pkgName.Imported().Name()\<close>), and otherwise the
  new name followed by one space.
\<close>

theorem updatePkgName_single_substitution:
  assumes "is_PkgName (ref_obj ref)" and "isDeclaration ref"
      and "pathEnclosingInterval e (packages r (obj_Pkg (ref_obj ref)))
             (obj_Pos (ref_obj ref)) (obj_Pos (ref_obj ref)) = (tokFile, path)"
      and "2 \<le> length path" and "path ! 1 = ImportSpecNode spec"
      and "Range_Span e tokFile (ImportSpec_Pos spec) (Path_ValuePos spec) = Inr spn"
      and "ed = \<lparr> edit_Start = Offset (Start spn), edit_End = Offset (End spn),
                  New = (if to_name r = Imported_Name (ref_obj ref) then [] else to_name r @ '' '') \<rparr>"
  shows "updatePkgName e r (ref_obj ref) = Inr ed
         \<and> update_ref e r ref refSpan result = Inr (append_edit result (URI refSpan) ed)
         \<and> (\<forall>u. edits_at (append_edit result (URI refSpan) ed) u
                  = edits_at result u @ (if u = URI refSpan then [ed] else []))
         \<and> ImportSpec_Pos spec = (case imp_Name spec of None \<Rightarrow> Path_ValuePos spec | Some n \<Rightarrow> NamePos n)"
proof -
  have u: "updatePkgName e r (ref_obj ref) = Inr ed"
    using assms(3-7) by (simp add: updatePkgName_def Let_def)
  have "update_ref e r ref refSpan result = Inr (append_edit result (URI refSpan) ed)"
    using assms(1,2) u by (simp add: update_ref_def)
  with u show ?thesis
    by (simp add: edits_at_append_edit ImportSpec_Pos_def split: option.splits)
qed

text \<open>
  The example: \<open>import foo "a/bar"\<close> at offset 20 of b.go, the package named bar.
  Renaming the alias to bar blanks the bytes 20 to 24 (the alias and the space);
  renaming it to baz replaces them by the new alias and a space.
\<close>

definition ex_alias_spec :: ImportSpec where
  "ex_alias_spec = \<lparr> imp_Name = Some \<lparr> NamePos = 20, ident_Name = ''foo'' \<rparr>, Path_ValuePos = 24,
                     Path_Value = CHR 0x22 # ''a/bar'' @ [CHR 0x22] \<rparr>"

definition ex_alias_env :: env where
  "ex_alias_env = ex_env \<lparr> pathEnclosingInterval := (\<lambda>p a b. (ex_tokFile, [IdentNode, ImportSpecNode ex_alias_spec, GenDecl None, FileNode []])) \<rparr>"

definition ex_alias_ref :: ReferenceInfo where
  "ex_alias_ref = ex_ref (ex_obj 7 ''foo'' (PkgName ''bar'')) ''b.go'' 20 23 True"

theorem updatePkgName_single_substitution_witness:
  "update_ref ex_alias_env (new_renamer (ex_obj 7 ''foo'' (PkgName ''bar'')) ''bar'' False [ex_alias_ref])
     ex_alias_ref (ex_span ''b.go'' 20 23) []
     = Inr [(''b.go'', [\<lparr> edit_Start = 20, edit_End = 24, New = [] \<rparr>])]
   \<and> update_ref ex_alias_env (new_renamer (ex_obj 7 ''foo'' (PkgName ''bar'')) ''baz'' False [ex_alias_ref])
     ex_alias_ref (ex_span ''b.go'' 20 23) []
     = Inr [(''b.go'', [\<lparr> edit_Start = 20, edit_End = 24, New = ''baz '' \<rparr>])]"
proof -
  let ?r1 = "new_renamer (ex_obj 7 ''foo'' (PkgName ''bar'')) ''bar'' False [ex_alias_ref]"
  let ?r2 = "new_renamer (ex_obj 7 ''foo'' (PkgName ''bar'')) ''baz'' False [ex_alias_ref]"
  let ?path = "[IdentNode, ImportSpecNode ex_alias_spec, GenDecl None, FileNode []]"
  let ?spn = "ex_span ''b.go'' 20 24"
  have h1: "is_PkgName (ref_obj ex_alias_ref)" "isDeclaration ex_alias_ref"
    by code_simp+
  have h2: "pathEnclosingInterval ex_alias_env (packages ?r1 (obj_Pkg (ref_obj ex_alias_ref)))
             (obj_Pos (ref_obj ex_alias_ref)) (obj_Pos (ref_obj ex_alias_ref)) = (ex_tokFile, ?path)"
       "pathEnclosingInterval ex_alias_env (packages ?r2 (obj_Pkg (ref_obj ex_alias_ref)))
             (obj_Pos (ref_obj ex_alias_ref)) (obj_Pos (ref_obj ex_alias_ref)) = (ex_tokFile, ?path)"
    by (simp_all add: ex_alias_env_def ex_env_def)
  have h3: "2 \<le> length ?path" "?path ! 1 = ImportSpecNode ex_alias_spec"
    by simp_all
  have h4: "Range_Span ex_alias_env ex_tokFile (ImportSpec_Pos ex_alias_spec) (Path_ValuePos ex_alias_spec)
              = Inr ?spn"
    by (simp add: ex_alias_env_def ex_env_def ex_alias_spec_def ImportSpec_Pos_def ex_tokFile_def)
  have e1: "\<lparr> edit_Start = 20, edit_End = 24, New = [] \<rparr>
              = \<lparr> edit_Start = Offset (Start ?spn), edit_End = Offset (End ?spn),
                  New = (if to_name ?r1 = Imported_Name (ref_obj ex_alias_ref) then [] else to_name ?r1 @ '' '') \<rparr>"
    by code_simp
  have e2: "\<lparr> edit_Start = 20, edit_End = 24, New = ''baz '' \<rparr>
              = \<lparr> edit_Start = Offset (Start ?spn), edit_End = Offset (End ?spn),
                  New = (if to_name ?r2 = Imported_Name (ref_obj ex_alias_ref) then [] else to_name ?r2 @ '' '') \<rparr>"
    by code_simp
  have u: "URI (ex_span ''b.go'' 20 23) = ''b.go''"
    by (simp add: ex_span_def)
  show ?thesis
    using updatePkgName_single_substitution [OF h1 h2(1) h3 h4 e1, of "ex_span ''b.go'' 20 23" "[]"]
          updatePkgName_single_substitution [OF h1 h2(2) h3 h4 e2, of "ex_span ''b.go'' 20 23" "[]"]
    by (simp add: u append_edit_def append_edits_def edits_at_def)
qed

subsection \<open>The fresh local name of an import\<close>

lemma decimal_nonempty: "decimal n \<noteq> []"
  by (subst decimal.simps) simp

lemma digit_char_inj: "a < 10 \<Longrightarrow> b < 10 \<Longrightarrow> digit_char a = digit_char b \<Longrightarrow> a = b"
  using arg_cong [of "digit_char a" "digit_char b" "of_char :: char \<Rightarrow> nat"]
  by (simp add: digit_char_def)

lemma decimal_inj: "decimal n = decimal m \<Longrightarrow> n = m"
proof (induction n arbitrary: m rule: decimal.induct)
  case (1 n)
  show ?case
  proof (cases "n < 10")
    case True
    show ?thesis
    proof (cases "m < 10")
      case m: True
      from "1.prems" True m have "digit_char n = digit_char m"
        by (simp add: decimal.simps [of n] decimal.simps [of m])
      then show ?thesis using True m digit_char_inj by blast
    next
      case m: False
      from "1.prems" True m have "[digit_char n] = decimal (m div 10) @ [digit_char (m mod 10)]"
        by (simp add: decimal.simps [of n] decimal.simps [of m])
      then have "decimal (m div 10) = []" by simp
      then show ?thesis using decimal_nonempty by blast
    qed
  next
    case False
    show ?thesis
    proof (cases "m < 10")
      case m: True
      from "1.prems" False m have "decimal (n div 10) @ [digit_char (n mod 10)] = [digit_char m]"
        by (simp add: decimal.simps [of n] decimal.simps [of m])
      then have "decimal (n div 10) = []" by simp
      then show ?thesis using decimal_nonempty by blast
    next
      case m: False
      from "1.prems" False m
      have eq: "decimal (n div 10) @ [digit_char (n mod 10)] = decimal (m div 10) @ [digit_char (m mod 10)]"
        by (simp add: decimal.simps [of n] decimal.simps [of m])
      then have a: "decimal (n div 10) = decimal (m div 10)"
        and b: "digit_char (n mod 10) = digit_char (m mod 10)"
        by simp_all
      have "n div 10 = m div 10" using "1.IH" [OF False a] .
      moreover have "n mod 10 = m mod 10" using b digit_char_inj [of "n mod 10" "m mod 10"] by simp
      ultimately show ?thesis
        by (metis div_mult_mod_eq)
    qed
  qed
qed

lemma finite_candidates: "finite {k. newName @ decimal k \<in> S}" if "finite S"
proof -
  have "inj (\<lambda>k. newName @ decimal k)"
    by (auto simp: inj_def dest: decimal_inj)
  then have "finite ((\<lambda>k. newName @ decimal k) -` S)"
    using that by (simp add: finite_vimageI)
  then show ?thesis by (simp add: vimage_def)
qed

text \<open>
  The numbers after \<open>tries\<close> whose candidate name is bound in one of the two
  scopes: the measure of the loop that looks for a fresh local name.
\<close>

definition later_bound :: "string list \<Rightarrow> string list \<Rightarrow> string \<Rightarrow> nat \<Rightarrow> nat set" where
  "later_bound fs ps newName tries = {k. tries < k \<and> newName @ decimal k \<in> set fs \<union> set ps}"

lemma finite_later_bound: "finite (later_bound fs ps newName tries)"
proof -
  have "later_bound fs ps newName tries \<subseteq> {k. newName @ decimal k \<in> set fs \<union> set ps}"
    by (auto simp: later_bound_def)
  then show ?thesis
    using finite_candidates [of "set fs \<union> set ps" newName] by (simp add: finite_subset)
qed

lemma later_bound_Suc:
  "later_bound fs ps newName tries
     = (if newName @ decimal (Suc tries) \<in> set fs \<union> set ps
        then insert (Suc tries) (later_bound fs ps newName (Suc tries))
        else later_bound fs ps newName (Suc tries))"
proof -
  have "tries < k \<longleftrightarrow> k = Suc tries \<or> Suc tries < k" for k
    by auto
  then show ?thesis
    by (auto simp: later_bound_def)
qed

text \<open>
  The loop of renameImports that picks the local name: \<open>for fileScope.Lookup(localName)
  != nil || pkgScope.Lookup(localName) != nil { try++; localName = fmt.Sprintf("%s%d",
  newName, try) }\<close>. It ends because the candidates differ from each other and the
  scopes bind finitely many names.
\<close>

function freshLocalName :: "string list \<Rightarrow> string list \<Rightarrow> string \<Rightarrow> nat \<Rightarrow> string \<Rightarrow> string" where
  "freshLocalName fileScope pkgScope newName tries localName =
     (if localName \<in> set fileScope \<or> localName \<in> set pkgScope
      then freshLocalName fileScope pkgScope newName (tries + 1) (newName @ decimal (tries + 1))
      else localName)"
  by pat_completeness auto
termination
proof (relation "measure (\<lambda>(fs, ps, newName, tries, localName).
          (if localName \<in> set fs \<union> set ps then 1 else 0) + 2 * card (later_bound fs ps newName tries))")
  show "wf (measure (\<lambda>(fs, ps, newName, tries, localName).
          (if localName \<in> set fs \<union> set ps then 1 else 0) + 2 * card (later_bound fs ps newName tries)))"
    by simp
next
  fix fileScope pkgScope :: "string list" and newName localName :: string and tries :: nat
  assume b: "localName \<in> set fileScope \<or> localName \<in> set pkgScope"
  have fin: "finite (later_bound fileScope pkgScope newName (Suc tries))"
    by (rule finite_later_bound)
  have notin: "Suc tries \<notin> later_bound fileScope pkgScope newName (Suc tries)"
    by (simp add: later_bound_def)
  show "((fileScope, pkgScope, newName, tries + 1, newName @ decimal (tries + 1)),
         (fileScope, pkgScope, newName, tries, localName))
        \<in> measure (\<lambda>(fs, ps, newName, tries, localName).
          (if localName \<in> set fs \<union> set ps then 1 else 0) + 2 * card (later_bound fs ps newName tries))"
    using b fin notin later_bound_Suc [of fileScope pkgScope newName tries]
    by (auto simp: card_insert_if)
qed

declare freshLocalName.simps [simp del]

subsection \<open>renamePackageClause, renameImports, renamePackage\<close>

text \<open>
  The state of these loops is the \<open>seen\<close> map and the \<open>edits\<close> map, both mutated in
  place by the source. When a function fails its caller drops both maps.
\<close>

type_synonym rename_state = "seenPackageRename \<times> TextEdit edit_map"

fun renamePackageClause_files ::
  "env \<Rightarrow> Metadata \<Rightarrow> string \<Rightarrow> ParsedGoFile list \<Rightarrow> rename_state \<Rightarrow> error + rename_state" where
  "renamePackageClause_files e m newName [] st = Inr st"
| "renamePackageClause_files e m newName (f # fs) (seen, edits) =
     (case add seen (pgf_URI f) (PackagePath m) of
        (was, seen') \<Rightarrow>
          if was then renamePackageClause_files e m newName fs (seen', edits)
          else (case File_Name f of
                  None \<Rightarrow> renamePackageClause_files e m newName fs (seen', edits)
                | Some nm \<Rightarrow>
                    (case MappedRange e f (NamePos nm) (Ident_End nm) of
                       Inl err \<Rightarrow> Inl err
                     | Inr rng \<Rightarrow>
                         renamePackageClause_files e m newName fs
                           (seen', append_edit edits (pgf_URI f)
                                     \<lparr> Range = rng, NewText = newName, AnnotationID = [] \<rparr>))))"

definition renamePackageClause :: "env \<Rightarrow> Metadata \<Rightarrow> string \<Rightarrow> rename_state \<Rightarrow> error + rename_state" where
  "renamePackageClause e m newName st =
     (case WorkspacePackageByID e (PackageID m) of
        Inl err \<Rightarrow> Inl err
      | Inr p \<Rightarrow> renamePackageClause_files e m newName (CompiledGoFiles p) st)"

text \<open>
  The body of the innermost loop of renameImports, for one import spec of the file
  \<open>f\<close> of the reverse dependency \<open>dep\<close>. A type assertion on a missing implicit
  object, a lookup in a missing file scope and \<open>v[1:]\<close> on an empty slice panic.
  \<open>sort.Slice\<close> sorts by \<open>protocol.CompareRange\<close> (the order of equal ranges is
  not specified by Go; here they keep their order).
\<close>

definition renameImport ::
  "env \<Rightarrow> Metadata \<Rightarrow> string \<Rightarrow> string \<Rightarrow> Package \<Rightarrow> ParsedGoFile \<Rightarrow> ImportSpec
     \<Rightarrow> TextEdit edit_map \<Rightarrow> error + TextEdit edit_map" where
  "renameImport e m newPath newName dep f imp edits =
     (if Unquote e (Path_Value imp) \<noteq> PackagePath m then Inr edits
      else (case MappedRange e f (Path_ValuePos imp) (Path_End imp) of
              Inl err \<Rightarrow> Inl err
            | Inr rng \<Rightarrow>
                (let edits1 = append_edit edits (pgf_URI f)
                                \<lparr> Range = rng, NewText = Quote e newPath, AnnotationID = [] \<rparr>
                 in if newName = PackageName m \<or> imp_Name imp \<noteq> None then Inr edits1
                    else (case Implicits dep imp of
                            None \<Rightarrow> Inl Panic
                          | Some pkgname \<Rightarrow>
                              if \<not> is_PkgName pkgname then Inl Panic
                              else (case Scopes dep (pgf_URI f) of
                                      None \<Rightarrow> Inl Panic
                                    | Some fileScope \<Rightarrow>
                                        (let localName = freshLocalName fileScope (Types_Scope dep) newName 0 newName
                                         in case renameObj e localName
                                                   [\<lparr> qo_obj = pkgname, qo_pkg = dep, qo_sourcePkg = None,
                                                      qo_node = None \<rparr>] False of
                                              Inl err \<Rightarrow> Inl err
                                            | Inr changes \<Rightarrow>
                                                if localName = newName then
                                                  (case sort_key Range (edits_at changes (pgf_URI f)) of
                                                     [] \<Rightarrow> Inl Panic
                                                   | first # v \<Rightarrow>
                                                       Inr (fold (\<lambda>(u, changeEdits) acc. append_edits acc u changeEdits)
                                                              (AList.update (pgf_URI f) v changes) edits1))
                                                else Inr (fold (\<lambda>(u, changeEdits) acc. append_edits acc u changeEdits)
                                                            changes edits1)))))))"

fun renameImports_specs ::
  "env \<Rightarrow> Metadata \<Rightarrow> string \<Rightarrow> string \<Rightarrow> Package \<Rightarrow> ParsedGoFile \<Rightarrow> ImportSpec list
     \<Rightarrow> TextEdit edit_map \<Rightarrow> error + TextEdit edit_map" where
  "renameImports_specs e m newPath newName dep f [] edits = Inr edits"
| "renameImports_specs e m newPath newName dep f (imp # imps) edits =
     (case renameImport e m newPath newName dep f imp edits of
        Inl err \<Rightarrow> Inl err
      | Inr edits' \<Rightarrow> renameImports_specs e m newPath newName dep f imps edits')"

fun renameImports_files ::
  "env \<Rightarrow> Metadata \<Rightarrow> string \<Rightarrow> string \<Rightarrow> Package \<Rightarrow> ParsedGoFile list
     \<Rightarrow> rename_state \<Rightarrow> error + rename_state" where
  "renameImports_files e m newPath newName dep [] st = Inr st"
| "renameImports_files e m newPath newName dep (f # fs) (seen, edits) =
     (case add seen (pgf_URI f) (PackagePath m) of
        (was, seen') \<Rightarrow>
          if was then renameImports_files e m newPath newName dep fs (seen', edits)
          else (case renameImports_specs e m newPath newName dep f (File_Imports f) edits of
                  Inl err \<Rightarrow> Inl err
                | Inr edits' \<Rightarrow> renameImports_files e m newPath newName dep fs (seen', edits')))"

fun renameImports_deps ::
  "env \<Rightarrow> Metadata \<Rightarrow> string \<Rightarrow> string \<Rightarrow> Package list \<Rightarrow> rename_state \<Rightarrow> error + rename_state" where
  "renameImports_deps e m newPath newName [] st = Inr st"
| "renameImports_deps e m newPath newName (dep # deps) st =
     (if pkg_ParseMode dep \<noteq> ParseFull then renameImports_deps e m newPath newName deps st
      else (case renameImports_files e m newPath newName dep (CompiledGoFiles dep) st of
              Inl err \<Rightarrow> Inl err
            | Inr st' \<Rightarrow> renameImports_deps e m newPath newName deps st'))"

definition renameImports :: "env \<Rightarrow> Metadata \<Rightarrow> string \<Rightarrow> string \<Rightarrow> rename_state \<Rightarrow> error + rename_state" where
  "renameImports e m newPath newName st =
     (case GetReverseDependencies e (PackageID m) of
        Inl err \<Rightarrow> Inl err
      | Inr rdeps \<Rightarrow> renameImports_deps e m newPath newName rdeps st)"

text \<open>The body of the loop of renamePackage over the metadata of the workspace.\<close>

definition renamePackage_step ::
  "env \<Rightarrow> string \<Rightarrow> string \<Rightarrow> string \<Rightarrow> string \<Rightarrow> Metadata \<Rightarrow> rename_state \<Rightarrow> error + rename_state" where
  "renamePackage_step e modulePath oldPath newName newPathPrefix m st =
     (if PackagePath m = oldPath @ ''_test'' then renamePackageClause e m (newName @ ''_test'') st
      else if \<not> HasPrefix (PackagePath m @ ''/'') (oldPath @ ''/'') then Inr st
      else (case ModuleInfo m of
              None \<Rightarrow> Inl (MissingModuleInfo (PackagePath m))
            | Some mPath \<Rightarrow>
                if modulePath \<noteq> mPath then Inr st
                else (let suffix = TrimPrefix (PackagePath m) oldPath;
                          newPath = newPathPrefix @ suffix
                      in if PackagePath m = oldPath then
                           (case renamePackageClause e m newName st of
                              Inl err \<Rightarrow> Inl err
                            | Inr st' \<Rightarrow> renameImports e m newPath newName st')
                         else renameImports e m newPath (PackageName m) st)))"

fun renamePackage_loop ::
  "env \<Rightarrow> string \<Rightarrow> string \<Rightarrow> string \<Rightarrow> string \<Rightarrow> Metadata list \<Rightarrow> rename_state \<Rightarrow> error + rename_state" where
  "renamePackage_loop e modulePath oldPath newName newPathPrefix [] st = Inr st"
| "renamePackage_loop e modulePath oldPath newName newPathPrefix (m # ms) st =
     (case renamePackage_step e modulePath oldPath newName newPathPrefix m st of
        Inl err \<Rightarrow> Inl err
      | Inr st' \<Rightarrow> renamePackage_loop e modulePath oldPath newName newPathPrefix ms st')"

definition renamePackage ::
  "env \<Rightarrow> string \<Rightarrow> string \<Rightarrow> string \<Rightarrow> Metadata list \<Rightarrow> error + TextEdit edit_map" where
  "renamePackage e modulePath oldPath newName allMetadata =
     (if modulePath = oldPath then Inl (ModulePathSame modulePath)
      else (case renamePackage_loop e modulePath oldPath newName
                   (path_Join e (path_Dir e oldPath) newName) allMetadata (Map.empty, []) of
              Inl err \<Rightarrow> Inl err
            | Inr st \<Rightarrow> Inr (snd st)))"

subsection \<open>PrepareRename\<close>

text \<open>
  \<open>computePrepareRenameResp\<close>, given the position and end of the node and whether
  it is an import spec.
\<close>

definition computePrepareRenameResp ::
  "env \<Rightarrow> Package option \<Rightarrow> AstNode \<Rightarrow> string \<Rightarrow> error + PrepareItem" where
  "computePrepareRenameResp e p node text =
     (case posToMappedRange e p (node_Pos node) (node_End node) of
        Inl err \<Rightarrow> Inl err
      | Inr rng \<Rightarrow>
          Inr \<lparr> prep_Range = (if node_isImportSpec node then (fst rng, fst rng) else rng),
                prep_Text = text \<rparr>)"

text \<open>
  \<open>PrepareRename\<close> returns the item, the error for the user and the error; a nil
  pointer or error is \<open>None\<close>. A panic is shown as the error \<open>Panic\<close> in both
  places. The file handle is given by its URI.
\<close>

type_synonym prepare_result = "PrepareItem option \<times> error option \<times> error option"

definition PrepareRename :: "env \<Rightarrow> uri \<Rightarrow> position \<Rightarrow> prepare_result" where
  "PrepareRename e u pp =
     (case ParseGo e u of
        Inl err \<Rightarrow> (None, Some err, Some err)
      | Inr pgf \<Rightarrow>
     (case isInPackageName e u pgf pp of
        Inl err \<Rightarrow> (None, Some err, Some err)
      | Inr inPackageName \<Rightarrow>
          if inPackageName then
            (if Rename_op \<notin> set (SupportedResourceOperations e)
             then (None, Some ClientNoFileRename, Some ClientNoFileRename)
             else (case MetadataForFile e u of
                     Inl err \<Rightarrow> (None, Some err, Some err)
                   | Inr fileMeta \<Rightarrow>
                  (case fileMeta of
                     [] \<Rightarrow> (None, Some (NoPackagesFound u), Some (NoPackagesFound u))
                   | meta # _ \<Rightarrow>
                       if PackageName meta = ''main'' then (None, Some CantRenameMain, Some CantRenameMain)
                       else if HasSuffix (PackageName meta) ''_test''
                       then (None, Some CantRenameXTest, Some CantRenameXTest)
                       else (case ModuleInfo meta of
                               None \<Rightarrow> (None, Some (PrepareMissingModuleInfo (PackagePath meta)),
                                         Some (PrepareMissingModuleInfo (PackagePath meta)))
                             | Some modulePath \<Rightarrow>
                                 if modulePath = PackagePath meta
                                 then (None, Some (PrepareSamePath (PackagePath meta) modulePath),
                                       Some (PrepareSamePath (PackagePath meta) modulePath))
                                 else (case WorkspacePackageByID e (PackageID meta) of
                                         Inl err \<Rightarrow> (None, Some (BuildingPackage err), Some (BuildingPackage err))
                                       | Inr p \<Rightarrow>
                                      (case File_Name pgf of
                                         None \<Rightarrow> (None, Some Panic, Some Panic)
                                       | Some nm \<Rightarrow>
                                           (case computePrepareRenameResp e (Some p)
                                                   \<lparr> node_Pos = NamePos nm, node_End = Ident_End nm,
                                                     node_isImportSpec = False \<rparr> (pkg_Name p) of
                                              Inl err \<Rightarrow> (None, None, Some err)
                                            | Inr result \<Rightarrow> (Some result, None, None))))))))
          else
            (case qualifiedObjsAtProtocolPos e u pp of
               Inl err \<Rightarrow> (None, None, Some err)
             | Inr qos \<Rightarrow>
            (case qos of
               [] \<Rightarrow> (None, Some Panic, Some Panic)
             | q # _ \<Rightarrow>
            (case checkRenamable (qo_obj q) of
               Some err \<Rightarrow> (None, None, Some err)
             | None \<Rightarrow>
            (case qo_node q of
               None \<Rightarrow> (None, Some Panic, Some Panic)
             | Some node \<Rightarrow>
                 (case computePrepareRenameResp e (qo_sourcePkg q) node (obj_Name (qo_obj q)) of
                    Inl err \<Rightarrow> (None, None, Some err)
                  | Inr result \<Rightarrow> (Some result, None, None))))))))"

subsection \<open>Rename\<close>

text \<open>
  \<open>isInterfaceSignature\<close>: for a function, whether the type of the receiver of its
  signature is an interface. The source does not test the receiver for nil, so a
  function without a receiver panics.
\<close>

definition isInterfaceSignature :: "Object \<Rightarrow> error + bool" where
  "isInterfaceSignature ob =
     (case obj_kind ob of
        Func None \<Rightarrow> Inl Panic
      | Func (Some recv) \<Rightarrow> Inr (recv_IsInterface recv)
      | _ \<Rightarrow> Inr False)"

text \<open>
  The description of an implementation: the name of the object, for a function
  preceded by the type of its receiver and a dot (a panic without a receiver). Only
  functions are taken to have a signature as their type; \<open>implementations\<close> returns
  methods.
\<close>

definition impl_description :: "Object \<Rightarrow> error + string" where
  "impl_description ob =
     (case obj_kind ob of
        Func None \<Rightarrow> Inl Panic
      | Func (Some recv) \<Rightarrow> Inr (recv_TypeString recv @ ''.'' @ obj_Name ob)
      | _ \<Rightarrow> Inr (obj_Name ob))"

text \<open>
  The loop of Rename over the implementations of an interface method, \<open>implID\<close> the
  index: the edits of each implementation, tagged with the index, and its
  annotation.
\<close>

type_synonym annotated = "TextEdit edit_map \<times> (string \<times> ChangeAnnotation) list"

fun rename_impls :: "env \<Rightarrow> string \<Rightarrow> nat \<Rightarrow> qualifiedObject list \<Rightarrow> annotated \<Rightarrow> error + annotated" where
  "rename_impls e newName implID [] acc = Inr acc"
| "rename_impls e newName implID (impl # impls) (annotatedEdits, annotations) =
     (case renameObj e newName [impl] True of
        Inl err \<Rightarrow> Inl err
      | Inr subResult \<Rightarrow>
          (let annotatedEdits' =
                 fold (\<lambda>(u, res) acc.
                         fold (\<lambda>te acc'. append_edit acc' u (te \<lparr> AnnotationID := decimal implID \<rparr>)) res acc)
                   subResult annotatedEdits
           in case impl_description (qo_obj impl) of
                Inl err \<Rightarrow> Inl err
              | Inr name \<Rightarrow>
                  rename_impls e newName (implID + 1) impls
                    (annotatedEdits',
                     AList.update (decimal implID)
                       \<lparr> Label = ''Rename implementation #'' @ decimal (implID + 1),
                         NeedsConfirmation = True, Description = name \<rparr> annotations)))"

text \<open>
  \<open>Rename\<close> returns the edits, the optional edits, whether the request is a package
  rename, and the error; a nil map, pointer or error is \<open>None\<close>. A panic is shown as
  the error \<open>Panic\<close>.
\<close>

type_synonym rename_result = "TextEdit edit_map option \<times> OptionalEdits option \<times> bool \<times> error option"

definition Rename :: "env \<Rightarrow> uri \<Rightarrow> position \<Rightarrow> string \<Rightarrow> rename_result" where
  "Rename e u pp newName =
     (case ParseGo e u of
        Inl err \<Rightarrow> (None, None, False, Some err)
      | Inr pgf \<Rightarrow>
     (case isInPackageName e u pgf pp of
        Inl err \<Rightarrow> (None, None, False, Some err)
      | Inr inPackageName \<Rightarrow>
          if inPackageName then
            (if \<not> isValidIdentifier e newName then (None, None, True, Some (NotValidIdentifier newName))
             else (case MetadataForFile e u of
                     Inl err \<Rightarrow> (None, None, True, Some err)
                   | Inr fileMeta \<Rightarrow>
                  (case fileMeta of
                     [] \<Rightarrow> (None, None, True, Some (NoPackagesFound u))
                   | meta # _ \<Rightarrow>
                  (case ModuleInfo meta of
                     None \<Rightarrow> (None, None, True, Some (MissingModuleInfo (PackagePath meta)))
                   | Some modulePath \<Rightarrow>
                       if HasSuffix newName ''_test'' then (None, None, True, Some RenameToTest)
                       else (case AllValidMetadata e of
                               Inl err \<Rightarrow> (None, None, True, Some err)
                             | Inr metadata \<Rightarrow>
                            (case renamePackage e modulePath (PackagePath meta) newName metadata of
                               Inl err \<Rightarrow> (None, None, True, Some err)
                             | Inr renamingEdits \<Rightarrow> (Some renamingEdits, None, True, None)))))))
          else
            (case qualifiedObjsAtProtocolPos e u pp of
               Inl err \<Rightarrow> (None, None, False, Some err)
             | Inr qos \<Rightarrow>
            (case renameObj e newName qos False of
               Inl err \<Rightarrow> (None, None, False, Some err)
             | Inr result \<Rightarrow>
            (case qos of
               [] \<Rightarrow> (None, None, False, Some Panic)
             | q # _ \<Rightarrow>
            (case isInterfaceSignature (qo_obj q) of
               Inl err \<Rightarrow> (None, None, False, Some err)
             | Inr False \<Rightarrow> (Some result, None, False, None)
             | Inr True \<Rightarrow>
                 (case implementations e u pp of
                    Inl err \<Rightarrow> (None, None, False, Some err)
                  | Inr impls \<Rightarrow>
                 (case rename_impls e newName 0 impls ([], []) of
                    Inl err \<Rightarrow> (None, None, False, Some err)
                  | Inr (annotatedEdits, annotations) \<Rightarrow>
                      (Some result,
                       Some \<lparr> opt_Edits = annotatedEdits, Annotations = annotations \<rparr>,
                       False, None)))))))))"

subsection \<open>A package to rename, for the examples\<close>

text \<open>
  The package at a/old of the module a, with one file whose package clause names it
  at offset 8, and no importer. \<open>ex_Dir\<close> is the directory of a path without dot
  elements or trailing slash.
\<close>

definition ex_clause_file :: "string \<Rightarrow> ParsedGoFile" where
  "ex_clause_file name = \<lparr> pgf_URI = ''old/old.go'', File_Name = Some \<lparr> NamePos = 8, ident_Name = name \<rparr>,
                           File_Imports = [] \<rparr>"

definition ex_clause_meta :: "string \<Rightarrow> Metadata" where
  "ex_clause_meta name = \<lparr> PackageID = ''a/old'', PackageName = name, PackagePath = ''a/old'',
                           ModuleInfo = Some ''a'' \<rparr>"

definition ex_Dir :: "string \<Rightarrow> string" where
  "ex_Dir p = (if CHR ''/'' \<in> set p then rev (tl (dropWhile (\<lambda>c. c \<noteq> CHR ''/'') (rev p))) else ''.'')"

definition ex_clause_env :: "string \<Rightarrow> env" where
  "ex_clause_env name =
     ex_env \<lparr> ParseGo := (\<lambda>u. Inr (ex_clause_file name)),
              isInPackageName := (\<lambda>u f pp. Inr True),
              SupportedResourceOperations := [Create, Rename_op, Delete],
              MetadataForFile := (\<lambda>u. Inr [ex_clause_meta name]),
              AllValidMetadata := Inr [ex_clause_meta name],
              WorkspacePackageByID := (\<lambda>i. Inr (ex_pkg \<lparr> pkg_Name := name, CompiledGoFiles := [ex_clause_file name] \<rparr>)),
              path_Dir := ex_Dir \<rparr>"

subsection \<open>The package branch of Rename\<close>

text \<open>
  C9. When the position is inside the package-clause identifier, Rename answers that
  the request is a package rename whether it succeeds or fails; when it fails, the
  edit map and the optional edits are nil; and it fails when the new name is not a
  valid identifier, when the file has no package metadata, when the module
  information is missing and when the new name ends in _test.
\<close>

theorem Rename_reports_package_rename_on_failure:
  assumes "ParseGo e u = Inr pgf" and "isInPackageName e u pgf pp = Inr True"
  shows "fst (snd (snd (Rename e u pp newName))) = True
         \<and> (snd (snd (snd (Rename e u pp newName))) \<noteq> None \<longrightarrow>
              fst (Rename e u pp newName) = None \<and> fst (snd (Rename e u pp newName)) = None)
         \<and> (\<not> isValidIdentifier e newName
              \<or> MetadataForFile e u = Inr []
              \<or> (\<exists>meta ms. MetadataForFile e u = Inr (meta # ms) \<and> ModuleInfo meta = None)
              \<or> HasSuffix newName ''_test'' \<longrightarrow>
              snd (snd (snd (Rename e u pp newName))) \<noteq> None)"
  using assms
  by (auto simp: Rename_def split: sum.splits list.splits option.splits)

theorem Rename_reports_package_rename_on_failure_witness:
  "Rename (ex_clause_env ''old'') ''old/old.go'' (0, 9) ''new_test''
     = (None, None, True, Some RenameToTest)"
proof -
  have h: "ParseGo (ex_clause_env ''old'') ''old/old.go'' = Inr (ex_clause_file ''old'')"
          "isInPackageName (ex_clause_env ''old'') ''old/old.go'' (ex_clause_file ''old'') (0, 9) = Inr True"
    by (simp_all add: ex_clause_env_def)
  have ev: "snd (snd (snd (Rename (ex_clause_env ''old'') ''old/old.go'' (0, 9) ''new_test''))) = Some RenameToTest"
    by code_simp
  have s: "HasSuffix ''new_test'' ''_test''"
    by code_simp
  from Rename_reports_package_rename_on_failure [OF h, of "''new_test''"] s ev
  show ?thesis
    by (cases "Rename (ex_clause_env ''old'') ''old/old.go'' (0, 9) ''new_test''") auto
qed

text \<open>
  What PrepareRename and Rename refuse in a package rename. PrepareRename refuses the
  package main, a package name that ends in _test, missing module information and a
  module path equal to the package path. Rename refuses the last two.
\<close>

lemma PrepareRename_package_preconditions:
  assumes "ParseGo e u = Inr pgf" and "isInPackageName e u pgf pp = Inr True"
      and "MetadataForFile e u = Inr (meta # ms)"
      and "PackageName meta = ''main'' \<or> HasSuffix (PackageName meta) ''_test''
           \<or> ModuleInfo meta = None \<or> ModuleInfo meta = Some (PackagePath meta)"
  shows "fst (PrepareRename e u pp) = None \<and> snd (snd (PrepareRename e u pp)) \<noteq> None"
  using assms
  by (auto simp: PrepareRename_def split: sum.splits list.splits option.splits)

lemma Rename_package_preconditions:
  assumes "ParseGo e u = Inr pgf" and "isInPackageName e u pgf pp = Inr True"
      and "MetadataForFile e u = Inr (meta # ms)"
      and "ModuleInfo meta = None \<or> ModuleInfo meta = Some (PackagePath meta)"
  shows "fst (Rename e u pp newName) = None \<and> snd (snd (snd (Rename e u pp newName))) \<noteq> None"
  using assms
  by (auto simp: Rename_def renamePackage_def split: sum.splits list.splits option.splits)

text \<open>
  C2. The claim asks that Rename, like PrepareRename, refuse the package main and a
  package whose name ends in _test. Rename tests neither: for the package main at
  a/old and the new name tool, PrepareRename fails with the error for main and Rename
  returns the edit of the package clause; the same for the package named old_test.
\<close>

theorem Rename_main_package_not_refused:
  "PrepareRename (ex_clause_env ''main'') ''old/old.go'' (0, 9)
     = (None, Some CantRenameMain, Some CantRenameMain)
   \<and> Rename (ex_clause_env ''main'') ''old/old.go'' (0, 9) ''tool''
     = (Some [(''old/old.go'', [\<lparr> Range = ((0, 8), (0, 12)), NewText = ''tool'', AnnotationID = [] \<rparr>])],
        None, True, None)
   \<and> PrepareRename (ex_clause_env ''old_test'') ''old/old.go'' (0, 9)
     = (None, Some CantRenameXTest, Some CantRenameXTest)
   \<and> Rename (ex_clause_env ''old_test'') ''old/old.go'' (0, 9) ''tool''
     = (Some [(''old/old.go'', [\<lparr> Range = ((0, 8), (0, 16)), NewText = ''tool'', AnnotationID = [] \<rparr>])],
        None, True, None)"
  by code_simp

subsection \<open>A new name equal to the old one\<close>

text \<open>
  The classes of errors of the spec (its section 7), for the errors of rename.go that
  the spec classifies; rename.go itself has only messages.
\<close>

datatype error_class = InvalidTarget | InvalidName | NotFound | Conflict | CollaboratorFailure

fun error_class_of :: "error \<Rightarrow> error_class option" where
  "error_class_of BlankIdentifier = Some InvalidTarget"
| "error_class_of EmbeddedField = Some InvalidTarget"
| "error_class_of CantRenameMain = Some InvalidTarget"
| "error_class_of CantRenameXTest = Some InvalidTarget"
| "error_class_of (PrepareMissingModuleInfo p) = Some InvalidTarget"
| "error_class_of (MissingModuleInfo p) = Some InvalidTarget"
| "error_class_of (PrepareSamePath p q) = Some InvalidTarget"
| "error_class_of (ModulePathSame p) = Some InvalidTarget"
| "error_class_of (NotValidIdentifier n) = Some InvalidName"
| "error_class_of (InvalidIdentifier n) = Some InvalidName"
| "error_class_of (SameNames n) = Some InvalidName"
| "error_class_of RenameToTest = Some InvalidName"
| "error_class_of (NoPackagesFound u) = Some NotFound"
| "error_class_of (Conflicts msg) = Some Conflict"
| "error_class_of (Collaborator msg) = Some CollaboratorFailure"
| "error_class_of (BuildingPackage err) = Some CollaboratorFailure"
| "error_class_of err = None"

lemma checkRenamable_class: "checkRenamable ob = Some err \<Longrightarrow> error_class_of err = Some InvalidTarget"
  by (auto simp: checkRenamable_def split: if_splits)

text \<open>
  C3, as amended. In a single-symbol rename (from Rename at a position outside the
  package clause, or from renameObj directly, for the target or for an
  implementation) where the new name is the current name of the object: when the
  object is renamable the request fails with the error that the old and new names are
  the same, of class InvalidName; when it is the blank identifier or an embedded
  field it fails with the error of \<open>checkRenamable\<close>, of class InvalidTarget, which
  is tested first. In both cases no edit map is returned.
\<close>

theorem renameObj_same_name_fails:
  assumes "qos = q # qs" and "obj_Name (qo_obj q) = newName"
  shows "(checkRenamable (qo_obj q) = None \<longrightarrow>
            renameObj e newName qos renameImpls = Inl (SameNames newName)
            \<and> error_class_of (SameNames newName) = Some InvalidName)
         \<and> (\<forall>err. checkRenamable (qo_obj q) = Some err \<longrightarrow>
              renameObj e newName qos renameImpls = Inl err
              \<and> error_class_of err = Some InvalidTarget)
         \<and> (ParseGo e u = Inr pgf \<and> isInPackageName e u pgf pp = Inr False
              \<and> qualifiedObjsAtProtocolPos e u pp = Inr qos \<longrightarrow>
              Rename e u pp newName
                = (None, None, False,
                   Some (case checkRenamable (qo_obj q) of None \<Rightarrow> SameNames newName | Some err \<Rightarrow> err)))"
proof -
  have a: "checkRenamable (qo_obj q) = None \<longrightarrow> renameObj e newName qos renameImpls = Inl (SameNames newName)"
    for renameImpls
    using assms by (simp add: renameObj_def)
  have b: "checkRenamable (qo_obj q) = Some err \<longrightarrow> renameObj e newName qos renameImpls = Inl err"
    for err renameImpls
    using assms by (simp add: renameObj_def)
  have c: "ParseGo e u = Inr pgf \<and> isInPackageName e u pgf pp = Inr False
              \<and> qualifiedObjsAtProtocolPos e u pp = Inr qos \<longrightarrow>
              Rename e u pp newName
                = (None, None, False,
                   Some (case checkRenamable (qo_obj q) of None \<Rightarrow> SameNames newName | Some err \<Rightarrow> err))"
    using a [of False] b [of _ False] by (cases "checkRenamable (qo_obj q)") (auto simp: Rename_def)
  show ?thesis
    using a b c checkRenamable_class by auto
qed

text \<open>
  The example: a variable x renamed to x, and an embedded field T renamed to T.
\<close>

definition ex_symbol_env :: "Object \<Rightarrow> env" where
  "ex_symbol_env ob =
     ex_env \<lparr> ParseGo := (\<lambda>u. Inr (ex_clause_file ''b'')),
              qualifiedObjsAtProtocolPos := (\<lambda>u pp. Inr [ex_qo ob]) \<rparr>"

theorem renameObj_same_name_fails_witness:
  "Rename (ex_symbol_env (ex_obj 1 ''x'' (Var False))) ''b.go'' (3, 4) ''x''
     = (None, None, False, Some (SameNames ''x''))
   \<and> Rename (ex_symbol_env (ex_obj 1 ''T'' (Var True))) ''b.go'' (3, 4) ''T''
     = (None, None, False, Some EmbeddedField)"
proof -
  let ?e1 = "ex_symbol_env (ex_obj 1 ''x'' (Var False))"
  let ?e2 = "ex_symbol_env (ex_obj 1 ''T'' (Var True))"
  have h1: "ParseGo ?e1 ''b.go'' = Inr (ex_clause_file ''b'')
            \<and> isInPackageName ?e1 ''b.go'' (ex_clause_file ''b'') (3, 4) = Inr False
            \<and> qualifiedObjsAtProtocolPos ?e1 ''b.go'' (3, 4) = Inr [ex_qo (ex_obj 1 ''x'' (Var False))]"
    by (simp add: ex_symbol_env_def ex_env_def)
  have h2: "ParseGo ?e2 ''b.go'' = Inr (ex_clause_file ''b'')
            \<and> isInPackageName ?e2 ''b.go'' (ex_clause_file ''b'') (3, 4) = Inr False
            \<and> qualifiedObjsAtProtocolPos ?e2 ''b.go'' (3, 4) = Inr [ex_qo (ex_obj 1 ''T'' (Var True))]"
    by (simp add: ex_symbol_env_def ex_env_def)
  have n1: "obj_Name (qo_obj (ex_qo (ex_obj 1 ''x'' (Var False)))) = ''x''"
    and n2: "obj_Name (qo_obj (ex_qo (ex_obj 1 ''T'' (Var True)))) = ''T''"
    by code_simp+
  have c1: "checkRenamable (qo_obj (ex_qo (ex_obj 1 ''x'' (Var False)))) = None"
    and c2: "checkRenamable (qo_obj (ex_qo (ex_obj 1 ''T'' (Var True)))) = Some EmbeddedField"
    by code_simp+
  show ?thesis
    using renameObj_same_name_fails [OF refl n1, where qs = "[]" and e = ?e1 and renameImpls = False
            and u = "''b.go''" and pgf = "ex_clause_file ''b''" and pp = "(3, 4)"]
          renameObj_same_name_fails [OF refl n2, where qs = "[]" and e = ?e2 and renameImpls = False
            and u = "''b.go''" and pgf = "ex_clause_file ''b''" and pp = "(3, 4)"]
          h1 h2 c1 c2
    by simp
qed

text \<open>
  The claim as stated fails: renaming the blank identifier to itself is refused as an
  invalid target, and a package rename at the package clause with the package's own
  name is not refused at all (it returns the edit that writes the same name).
\<close>

theorem same_name_not_always_InvalidName:
  "renameObj ex_env ''_'' [ex_qo (ex_obj 1 ''_'' OtherObject)] False = Inl BlankIdentifier
   \<and> error_class_of BlankIdentifier = Some InvalidTarget
   \<and> Rename (ex_clause_env ''old'') ''old/old.go'' (0, 9) ''old''
     = (Some [(''old/old.go'', [\<lparr> Range = ((0, 8), (0, 11)), NewText = ''old'', AnnotationID = [] \<rparr>])],
        None, True, None)"
  by code_simp


subsection \<open>Duplicate references and files seen twice\<close>

text \<open>
  The spec's words: two references are duplicates when their file and span are
  equal. \<open>first_by_span\<close> keeps of each class of duplicates the first reference.
\<close>

function first_by_span :: "ReferenceInfo list \<Rightarrow> ReferenceInfo list" where
  "first_by_span [] = []"
| "first_by_span (ref # rest) = ref # first_by_span (filter (\<lambda>x. ref_Span x \<noteq> ref_Span ref) rest)"
  by pat_completeness auto
termination
  by (relation "measure length") (auto simp: le_imp_less_Suc)

lemma spans_first_by_span: "ref_Span ` set (first_by_span rs) = ref_Span ` set rs"
  by (induction rs rule: first_by_span.induct) auto

lemma distinct_first_by_span: "distinct (map ref_Span (first_by_span rs))"
proof (induction rs rule: first_by_span.induct)
  case 1
  show ?case by simp
next
  case (2 ref rest)
  have "ref_Span ref \<notin> ref_Span ` set (first_by_span (filter (\<lambda>x. ref_Span x \<noteq> ref_Span ref) rest))"
    unfolding spans_first_by_span by auto
  with 2 show ?case by simp
qed

text \<open>
  The edits that \<open>update\<close> writes for one reference when it does not skip it: what
  the body of its loop appends to an empty map.
\<close>

definition ref_edits :: "env \<Rightarrow> renamer \<Rightarrow> ReferenceInfo \<Rightarrow> uri \<Rightarrow> edit list" where
  "ref_edits e r ref u =
     (case ref_Span ref of
        Inl err \<Rightarrow> []
      | Inr sp \<Rightarrow> (case update_ref e r ref sp [] of Inl err \<Rightarrow> [] | Inr m \<Rightarrow> edits_at m u))"

lemma update_ref_frame:
  assumes "update_ref e r ref sp m = Inr m'"
  shows "\<exists>m0. update_ref e r ref sp [] = Inr m0 \<and> (\<forall>u. edits_at m' u = edits_at m u @ edits_at m0 u)"
  using assms
  by (auto simp: update_ref_def Let_def edits_at_append_edit doc_edits_at edits_at_Nil
           split: if_splits sum.splits option.splits)

lemma update_refs_edits:
  assumes "update_refs e r rs seen m = Inr m'"
  shows "edits_at m' u
           = edits_at m u
               @ concat (map (\<lambda>ref. ref_edits e r ref u)
                           (first_by_span (filter (\<lambda>x. ref_Span x \<notin> Inr ` seen) rs)))"
  using assms
proof (induction rs arbitrary: seen m)
  case Nil
  then show ?case by simp
next
  case (Cons ref rest)
  from Cons.prems obtain sp where sp: "ref_Span ref = Inr sp"
    by (cases "ref_Span ref") auto
  show ?case
  proof (cases "sp \<in> seen")
    case True
    with Cons.prems sp have "update_refs e r rest seen m = Inr m'" by simp
    from Cons.IH [OF this] True sp show ?thesis by simp
  next
    case False
    with Cons.prems sp obtain m1 where
      step: "update_ref e r ref sp m = Inr m1" and
      rest: "update_refs e r rest (insert sp seen) m1 = Inr m'"
      by (cases "update_ref e r ref sp m") auto
    from update_ref_frame [OF step] sp
    have m1: "edits_at m1 u = edits_at m u @ ref_edits e r ref u"
      by (auto simp: ref_edits_def)
    have keep: "ref_Span ref \<notin> Inr ` seen"
      using False sp by auto
    have flt: "filter (\<lambda>x. ref_Span x \<noteq> ref_Span ref) (filter (\<lambda>x. ref_Span x \<notin> Inr ` seen) rest)
                 = filter (\<lambda>x. ref_Span x \<notin> Inr ` insert sp seen) rest"
      using sp by (auto intro: filter_cong)
    show ?thesis
      using Cons.IH [OF rest] m1 keep flt by simp
  qed
qed

lemma update_refs_spans_ok:
  assumes "update_refs e r rs seen m = Inr m'" and "ref \<in> set rs"
  shows "\<exists>sp. ref_Span ref = Inr sp"
  using assms
proof (induction rs arbitrary: seen m)
  case Nil
  then show ?case by simp
next
  case (Cons a rest)
  from Cons.prems(1) obtain sp where sp: "ref_Span a = Inr sp"
    by (cases "ref_Span a") auto
  show ?case
  proof (cases "ref = a")
    case True
    with sp show ?thesis by blast
  next
    case False
    with Cons.prems(2) have mem: "ref \<in> set rest" by simp
    show ?thesis
    proof (cases "sp \<in> seen")
      case True
      with Cons.prems(1) sp have "update_refs e r rest seen m = Inr m'" by simp
      from Cons.IH [OF this mem] show ?thesis .
    next
      case nseen: False
      with Cons.prems(1) sp obtain m1 where
        "update_refs e r rest (insert sp seen) m1 = Inr m'"
        by (cases "update_ref e r a sp m") auto
      from Cons.IH [OF this mem] show ?thesis .
    qed
  qed
qed

lemma ref_edits_use:
  assumes "ref_Span ref = Inr sp" and "\<not> isDeclaration ref"
  shows "ref_edits e r ref u = (if u = URI sp then [ident_edit r sp] else [])"
  using assms
  by (simp add: ref_edits_def update_ref_def Let_def ident_edit_def edits_at_append_edit edits_at_Nil)

lemma ref_edits_first:
  assumes "ref_Span ref = Inr sp" and "update_ref e r ref sp [] = Inr m0"
  shows "\<exists>ed docs. ref_edits e r ref (URI sp) = ed # docs
           \<and> (\<not> (is_PkgName (ref_obj ref) \<and> isDeclaration ref) \<longrightarrow> ed = ident_edit r sp)
           \<and> (is_PkgName (ref_obj ref) \<and> isDeclaration ref \<longrightarrow>
                updatePkgName e r (ref_obj ref) = Inr ed \<and> docs = [])"
  using assms
  by (auto simp: ref_edits_def update_ref_def Let_def ident_edit_def edits_at_append_edit
                 edits_at_Nil doc_edits_at
           split: if_splits sum.splits option.splits)

lemma edits_at_Cons: "edits_at ((k, v) # m) u = (if u = k then v else edits_at m u)"
  by (simp add: edits_at_def)

lemma ToProtocolEdits_NewText:
  "ToProtocolEdits e u content eds = Inr tes \<Longrightarrow> map NewText tes = map New eds"
  by (induction eds arbitrary: tes) (auto split: sum.splits)

lemma protocol_edits_NewText:
  "protocol_edits e m = Inr pm \<Longrightarrow> map NewText (edits_at pm u) = map New (edits_at m u)"
proof (induction m arbitrary: pm)
  case Nil
  then show ?case by (simp add: edits_at_Nil)
next
  case (Cons a m)
  obtain k eds where a: "a = (k, eds)" by (cases a)
  from Cons.prems a obtain content tes pm' where
    t: "ToProtocolEdits e k content eds = Inr tes" and
    r: "protocol_edits e m = Inr pm'" and pm: "pm = (k, tes) # pm'"
    by (auto split: sum.splits)
  show ?case
    using Cons.IH [OF r] ToProtocolEdits_NewText [OF t] a pm
    by (simp add: edits_at_Cons)
qed

lemma add_seen: "seen_lookup s (u, p) \<Longrightarrow> add s u p = (True, s)"
  by (simp add: add_def Let_def)

lemma add_unseen: "\<not> seen_lookup s (u, p) \<Longrightarrow> add s u p = (False, s((u, p) \<mapsto> True))"
  by (simp add: add_def Let_def)

lemma seen_lookup_upd: "seen_lookup (s(k \<mapsto> True)) k' = (k' = k \<or> seen_lookup s k')"
  by (simp add: seen_lookup_def)

lemma clause_files_revisit:
  "\<forall>f\<in>set fs. seen_lookup seen (pgf_URI f, PackagePath m) \<Longrightarrow>
     renamePackageClause_files e m n fs (seen, edits) = Inr (seen, edits)"
  by (induction fs) (auto simp: add_seen)

lemma clause_files_seen_after:
  assumes "renamePackageClause_files e m n fs (seen, edits) = Inr (seen', edits')"
  shows "(\<forall>k. seen_lookup seen k \<longrightarrow> seen_lookup seen' k)
         \<and> (\<forall>f\<in>set fs. seen_lookup seen' (pgf_URI f, PackagePath m))"
  using assms
proof (induction fs arbitrary: seen edits)
  case Nil
  then show ?case by simp
next
  case (Cons f fs)
  show ?case
  proof (cases "seen_lookup seen (pgf_URI f, PackagePath m)")
    case True
    with Cons.prems have "renamePackageClause_files e m n fs (seen, edits) = Inr (seen', edits')"
      by (simp add: add_seen)
    from Cons.IH [OF this] True show ?thesis by auto
  next
    case False
    let ?s = "seen((pgf_URI f, PackagePath m) \<mapsto> True)"
    from Cons.prems False obtain edits1 where
      "renamePackageClause_files e m n fs (?s, edits1) = Inr (seen', edits')"
      by (auto simp: add_unseen split: option.splits sum.splits)
    from Cons.IH [OF this]
    have mono: "\<forall>k. seen_lookup ?s k \<longrightarrow> seen_lookup seen' k"
      and rest: "\<forall>f\<in>set fs. seen_lookup seen' (pgf_URI f, PackagePath m)"
      by blast+
    have "\<forall>k. seen_lookup seen k \<longrightarrow> seen_lookup ?s k"
      and "seen_lookup ?s (pgf_URI f, PackagePath m)"
      by (simp_all add: seen_lookup_upd)
    with mono rest show ?thesis
      by (metis set_ConsD)
  qed
qed

lemma clause_files_same_at_seen:
  assumes "renamePackageClause_files e m n fs (seen, edits) = Inr (seen', edits')"
      and "seen_lookup seen (u, PackagePath m)"
  shows "edits_at edits' u = edits_at edits u"
  using assms
proof (induction fs arbitrary: seen edits)
  case Nil
  then show ?case by simp
next
  case (Cons f fs)
  show ?case
  proof (cases "seen_lookup seen (pgf_URI f, PackagePath m)")
    case True
    with Cons.prems have "renamePackageClause_files e m n fs (seen, edits) = Inr (seen', edits')"
      by (simp add: add_seen)
    from Cons.IH [OF this Cons.prems(2)] show ?thesis .
  next
    case False
    let ?s = "seen((pgf_URI f, PackagePath m) \<mapsto> True)"
    have ne: "pgf_URI f \<noteq> u" using False Cons.prems(2) by auto
    from Cons.prems False obtain edits1 where
      r: "renamePackageClause_files e m n fs (?s, edits1) = Inr (seen', edits')" and
      e1: "edits_at edits1 u = edits_at edits u"
      using ne by (auto simp: add_unseen edits_at_append_edit split: option.splits sum.splits)
    have "seen_lookup ?s (u, PackagePath m)"
      using Cons.prems(2) by (simp add: seen_lookup_upd)
    from Cons.IH [OF r this] e1 show ?thesis by simp
  qed
qed

lemma clause_files_at_most_one:
  assumes "renamePackageClause_files e m n fs (seen, edits) = Inr (seen', edits')"
  shows "length (edits_at edits' u) \<le> Suc (length (edits_at edits u))"
  using assms
proof (induction fs arbitrary: seen edits)
  case Nil
  then show ?case by simp
next
  case (Cons f fs)
  show ?case
  proof (cases "seen_lookup seen (pgf_URI f, PackagePath m)")
    case True
    with Cons.prems have "renamePackageClause_files e m n fs (seen, edits) = Inr (seen', edits')"
      by (simp add: add_seen)
    from Cons.IH [OF this] show ?thesis .
  next
    case False
    let ?s = "seen((pgf_URI f, PackagePath m) \<mapsto> True)"
    from Cons.prems False obtain edits1 where
      r: "renamePackageClause_files e m n fs (?s, edits1) = Inr (seen', edits')" and
      e1: "length (edits_at edits1 u) \<le> Suc (length (edits_at edits u))" and
      e2: "pgf_URI f \<noteq> u \<longrightarrow> edits_at edits1 u = edits_at edits u"
      by (auto simp: add_unseen edits_at_append_edit split: option.splits sum.splits)
    show ?thesis
    proof (cases "pgf_URI f = u")
      case True
      then have "seen_lookup ?s (u, PackagePath m)" by (simp add: seen_lookup_upd)
      from clause_files_same_at_seen [OF r this] e1 show ?thesis by simp
    next
      case ne: False
      from Cons.IH [OF r] e2 ne show ?thesis by simp
    qed
  qed
qed

lemma imports_files_revisit:
  "\<forall>f\<in>set fs. seen_lookup seen (pgf_URI f, PackagePath m) \<Longrightarrow>
     renameImports_files e m newPath newName dep fs (seen, edits) = Inr (seen, edits)"
  by (induction fs) (auto simp: add_seen)

lemma imports_files_seen_after:
  assumes "renameImports_files e m newPath newName dep fs (seen, edits) = Inr (seen', edits')"
  shows "(\<forall>k. seen_lookup seen k \<longrightarrow> seen_lookup seen' k)
         \<and> (\<forall>f\<in>set fs. seen_lookup seen' (pgf_URI f, PackagePath m))"
  using assms
proof (induction fs arbitrary: seen edits)
  case Nil
  then show ?case by simp
next
  case (Cons f fs)
  show ?case
  proof (cases "seen_lookup seen (pgf_URI f, PackagePath m)")
    case True
    with Cons.prems have "renameImports_files e m newPath newName dep fs (seen, edits) = Inr (seen', edits')"
      by (simp add: add_seen)
    from Cons.IH [OF this] True show ?thesis by auto
  next
    case False
    let ?s = "seen((pgf_URI f, PackagePath m) \<mapsto> True)"
    from Cons.prems False obtain edits1 where
      "renameImports_files e m newPath newName dep fs (?s, edits1) = Inr (seen', edits')"
      by (auto simp: add_unseen split: sum.splits)
    from Cons.IH [OF this]
    have mono: "\<forall>k. seen_lookup ?s k \<longrightarrow> seen_lookup seen' k"
      and rest: "\<forall>f\<in>set fs. seen_lookup seen' (pgf_URI f, PackagePath m)"
      by blast+
    have "\<forall>k. seen_lookup seen k \<longrightarrow> seen_lookup ?s k"
      and "seen_lookup ?s (pgf_URI f, PackagePath m)"
      by (simp_all add: seen_lookup_upd)
    with mono rest show ?thesis
      by (metis set_ConsD)
  qed
qed

text \<open>
  C4. When \<open>update\<close> succeeds, the edits of each file are the edits of the
  references kept by \<open>first_by_span\<close>, in order: references with equal spans count
  once, whatever package they were found through. The kept references have distinct
  spans and the same spans as all the references. A kept use contributes its
  identifier edit and nothing else; a kept declaration contributes first its
  identifier edit (the edit of the import spec, alone, for a package name) and then
  the edits of its doc comment. The translation to the protocol's edits is one to
  one. In a package rename, a package clause gets at most one edit from the files of
  a package, and a file reached again through another variant of the package (the
  same import path) is skipped by \<open>renamePackageClause\<close> and by
  \<open>renameImports\<close>, state and edits unchanged.
\<close>

theorem one_edit_per_reference_span:
  "(update e r = Inr result \<longrightarrow>
      (\<forall>u. edits_at result u = concat (map (\<lambda>ref. ref_edits e r ref u) (first_by_span (refs r))))
      \<and> (\<forall>ref\<in>set (refs r). \<exists>sp. ref_Span ref = Inr sp))
   \<and> distinct (map ref_Span (first_by_span rs))
   \<and> ref_Span ` set (first_by_span rs) = ref_Span ` set rs
   \<and> (ref_Span ref = Inr sp \<and> \<not> isDeclaration ref \<longrightarrow>
        ref_edits e r ref u = (if u = URI sp then [ident_edit r sp] else []))
   \<and> (ref_Span ref = Inr sp \<and> update_ref e r ref sp [] = Inr m0 \<longrightarrow>
        (\<exists>ed docs. ref_edits e r ref (URI sp) = ed # docs
           \<and> (\<not> (is_PkgName (ref_obj ref) \<and> isDeclaration ref) \<longrightarrow> ed = ident_edit r sp)
           \<and> (is_PkgName (ref_obj ref) \<and> isDeclaration ref \<longrightarrow>
                updatePkgName e r (ref_obj ref) = Inr ed \<and> docs = [])))
   \<and> (protocol_edits e result = Inr final \<longrightarrow>
        map NewText (edits_at final u) = map New (edits_at result u))
   \<and> (renamePackageClause_files e m newName fs (seen, edits) = Inr (seen', edits') \<longrightarrow>
        length (edits_at edits' u') \<le> Suc (length (edits_at edits u'))
        \<and> (PackagePath m2 = PackagePath m \<and> pgf_URI ` set fs2 \<subseteq> pgf_URI ` set fs \<longrightarrow>
             renamePackageClause_files e m2 newName2 fs2 (seen', edits') = Inr (seen', edits')
             \<and> renameImports_files e m2 newPath2 newName2 dep2 fs2 (seen', edits') = Inr (seen', edits')))
   \<and> (renameImports_files e m newPath newName dep fs (seen, edits) = Inr (seen', edits') \<longrightarrow>
        (PackagePath m2 = PackagePath m \<and> pgf_URI ` set fs2 \<subseteq> pgf_URI ` set fs \<longrightarrow>
           renameImports_files e m2 newPath2 newName2 dep2 fs2 (seen', edits') = Inr (seen', edits')))"
proof -
  have U: "update e r = Inr result \<longrightarrow>
      (\<forall>u. edits_at result u = concat (map (\<lambda>ref. ref_edits e r ref u) (first_by_span (refs r))))
      \<and> (\<forall>ref\<in>set (refs r). \<exists>sp. ref_Span ref = Inr sp)"
    using update_refs_edits [of e r "refs r" "{}" "[]" result]
          update_refs_spans_ok [of e r "refs r" "{}" "[]" result]
    by (auto simp: update_def edits_at_Nil)
  have P: "protocol_edits e result = Inr final \<longrightarrow>
        map NewText (edits_at final u) = map New (edits_at result u)"
    using protocol_edits_NewText by blast
  have C: "renamePackageClause_files e m newName fs (seen, edits) = Inr (seen', edits') \<longrightarrow>
        length (edits_at edits' u') \<le> Suc (length (edits_at edits u'))
        \<and> (PackagePath m2 = PackagePath m \<and> pgf_URI ` set fs2 \<subseteq> pgf_URI ` set fs \<longrightarrow>
             renamePackageClause_files e m2 newName2 fs2 (seen', edits') = Inr (seen', edits')
             \<and> renameImports_files e m2 newPath2 newName2 dep2 fs2 (seen', edits') = Inr (seen', edits'))"
  proof (intro impI conjI)
    assume a: "renamePackageClause_files e m newName fs (seen, edits) = Inr (seen', edits')"
    show "length (edits_at edits' u') \<le> Suc (length (edits_at edits u'))"
      using clause_files_at_most_one [OF a] .
    assume b: "PackagePath m2 = PackagePath m \<and> pgf_URI ` set fs2 \<subseteq> pgf_URI ` set fs"
    have all: "\<forall>f\<in>set fs2. seen_lookup seen' (pgf_URI f, PackagePath m2)"
      using clause_files_seen_after [OF a] b by (auto simp: image_subset_iff)
    show "renamePackageClause_files e m2 newName2 fs2 (seen', edits') = Inr (seen', edits')"
      using clause_files_revisit [OF all] .
    show "renameImports_files e m2 newPath2 newName2 dep2 fs2 (seen', edits') = Inr (seen', edits')"
      using imports_files_revisit [OF all] .
  qed
  have I: "renameImports_files e m newPath newName dep fs (seen, edits) = Inr (seen', edits') \<longrightarrow>
        (PackagePath m2 = PackagePath m \<and> pgf_URI ` set fs2 \<subseteq> pgf_URI ` set fs \<longrightarrow>
           renameImports_files e m2 newPath2 newName2 dep2 fs2 (seen', edits') = Inr (seen', edits'))"
  proof (intro impI)
    assume a: "renameImports_files e m newPath newName dep fs (seen, edits) = Inr (seen', edits')"
    assume b: "PackagePath m2 = PackagePath m \<and> pgf_URI ` set fs2 \<subseteq> pgf_URI ` set fs"
    have all: "\<forall>f\<in>set fs2. seen_lookup seen' (pgf_URI f, PackagePath m2)"
      using imports_files_seen_after [OF a] b by (auto simp: image_subset_iff)
    show "renameImports_files e m2 newPath2 newName2 dep2 fs2 (seen', edits') = Inr (seen', edits')"
      using imports_files_revisit [OF all] .
  qed
  show ?thesis
    using U P C I distinct_first_by_span [of rs] spans_first_by_span [of rs]
          ref_edits_use [of ref sp e r u] ref_edits_first [of ref sp e r m0]
    by blast
qed

text \<open>
  The example: the declaration of x and two uses, one in c.go; the use in b.go and the
  declaration are found a second time through another package. Three edits result.
\<close>

definition ex_dup_refs :: "ReferenceInfo list" where
  "ex_dup_refs =
     [ex_ref (ex_obj 1 ''x'' OtherObject) ''b.go'' 10 11 True,
      ex_ref (ex_obj 1 ''x'' OtherObject) ''b.go'' 20 21 False,
      (ex_ref (ex_obj 1 ''x'' OtherObject) ''b.go'' 20 21 False) \<lparr> ref_pkg := ex_pkg \<lparr> GetTypes := 1 \<rparr> \<rparr>,
      ex_ref (ex_obj 1 ''x'' OtherObject) ''c.go'' 5 6 False,
      (ex_ref (ex_obj 1 ''x'' OtherObject) ''b.go'' 10 11 True) \<lparr> ref_pkg := ex_pkg \<lparr> GetTypes := 1 \<rparr> \<rparr>]"

definition ex_dup_renamer :: renamer where
  "ex_dup_renamer = new_renamer (ex_obj 1 ''x'' OtherObject) ''y'' False ex_dup_refs"

definition ex_dup_result :: "edit edit_map" where
  "ex_dup_result =
     [(''b.go'', [\<lparr> edit_Start = 10, edit_End = 11, New = ''y'' \<rparr>,
                  \<lparr> edit_Start = 20, edit_End = 21, New = ''y'' \<rparr>]),
      (''c.go'', [\<lparr> edit_Start = 5, edit_End = 6, New = ''y'' \<rparr>])]"

theorem one_edit_per_reference_span_witness:
  "update ex_env ex_dup_renamer = Inr ex_dup_result
   \<and> first_by_span (refs ex_dup_renamer)
       = [ex_ref (ex_obj 1 ''x'' OtherObject) ''b.go'' 10 11 True,
          ex_ref (ex_obj 1 ''x'' OtherObject) ''b.go'' 20 21 False,
          ex_ref (ex_obj 1 ''x'' OtherObject) ''c.go'' 5 6 False]
   \<and> edits_at ex_dup_result ''b.go''
       = concat (map (\<lambda>ref. ref_edits ex_env ex_dup_renamer ref ''b.go'') (first_by_span (refs ex_dup_renamer)))"
proof -
  have ev: "update ex_env ex_dup_renamer = Inr ex_dup_result"
    by code_simp
  have fb: "first_by_span (refs ex_dup_renamer)
       = [ex_ref (ex_obj 1 ''x'' OtherObject) ''b.go'' 10 11 True,
          ex_ref (ex_obj 1 ''x'' OtherObject) ''b.go'' 20 21 False,
          ex_ref (ex_obj 1 ''x'' OtherObject) ''c.go'' 5 6 False]"
    by (simp add: ex_dup_renamer_def new_renamer_def ex_dup_refs_def ex_ref_def ex_span_def ex_point_def)
  have "edits_at ex_dup_result ''b.go''
       = concat (map (\<lambda>ref. ref_edits ex_env ex_dup_renamer ref ''b.go'') (first_by_span (refs ex_dup_renamer)))"
    using one_edit_per_reference_span
            [where e = ex_env and r = ex_dup_renamer and result = ex_dup_result, THEN conjunct1] ev
    by blast
  with ev fb show ?thesis by blast
qed

subsection \<open>The local name of an import after a package rename\<close>

lemma fresh_unbound:
  "n \<notin> set fs \<Longrightarrow> n \<notin> set ps \<Longrightarrow> freshLocalName fs ps newName t n = n"
  by (subst freshLocalName.simps) simp

lemma fresh_form:
  "\<exists>k. freshLocalName fs ps newName t (newName @ decimal j) = newName @ decimal k"
proof (induction fs ps newName t "newName @ decimal j" arbitrary: j rule: freshLocalName.induct)
  case (1 fileScope pkgScope newName tries)
  show ?case
  proof (cases "newName @ decimal j \<in> set fileScope \<or> newName @ decimal j \<in> set pkgScope")
    case True
    from "1.hyps" [OF True refl] obtain k where
      "freshLocalName fileScope pkgScope newName (tries + 1) (newName @ decimal (tries + 1)) = newName @ decimal k"
      by blast
    with True show ?thesis
      by (subst freshLocalName.simps) auto
  next
    case False
    then show ?thesis
      by (subst freshLocalName.simps) auto
  qed
qed

lemma fresh_is_unbound:
  "freshLocalName fs ps newName t n \<notin> set fs \<union> set ps"
proof (induction fs ps newName t n rule: freshLocalName.induct)
  case (1 fileScope pkgScope newName tries localName)
  show ?case
  proof (cases "localName \<in> set fileScope \<or> localName \<in> set pkgScope")
    case True
    with "1.IH" [OF True] show ?thesis
      by (subst freshLocalName.simps) simp
  next
    case False
    then show ?thesis
      by (subst freshLocalName.simps) simp
  qed
qed

lemma fresh_eq_newName_iff:
  "freshLocalName fs ps newName 0 newName = newName \<longleftrightarrow> newName \<notin> set fs \<and> newName \<notin> set ps"
proof
  assume eq: "freshLocalName fs ps newName 0 newName = newName"
  show "newName \<notin> set fs \<and> newName \<notin> set ps"
    using fresh_is_unbound [of fs ps newName 0 newName] eq by simp
next
  assume "newName \<notin> set fs \<and> newName \<notin> set ps"
  then show "freshLocalName fs ps newName 0 newName = newName"
    by (simp add: fresh_unbound)
qed

lemma edits_at_update: "edits_at (AList.update k v m) u = (if u = k then v else edits_at m u)"
  by (simp add: edits_at_def update_conv')

lemma edits_at_notin: "k \<notin> fst ` set m \<Longrightarrow> edits_at m k = []"
proof -
  assume "k \<notin> fst ` set m"
  then have "map_of m k = None" by (simp add: map_of_eq_None_iff)
  then show ?thesis by (simp add: edits_at_def)
qed

lemma merge_edits_at:
  assumes "distinct (map fst changes)"
  shows "edits_at (fold (\<lambda>(k, changeEdits) acc. append_edits acc k changeEdits) changes edits) u
           = edits_at edits u @ edits_at changes u"
  using assms
proof (induction changes arbitrary: edits)
  case Nil
  show ?case by (simp add: edits_at_Nil)
next
  case (Cons a changes)
  obtain k es where a: "a = (k, es)" by (cases a)
  from Cons.prems a have d: "distinct (map fst changes)" and nk: "k \<notin> fst ` set changes"
    by auto
  show ?case
    using Cons.IH [OF d, of "append_edits edits k es"] a edits_at_notin [OF nk]
    by (simp add: edits_at_append_edits edits_at_Cons)
qed

lemma distinct_append_edit: "distinct (map fst m) \<Longrightarrow> distinct (map fst (append_edit m u ed))"
  by (simp add: append_edit_def append_edits_def distinct_update)

lemma distinct_fold_append_edit:
  "distinct (map fst m) \<Longrightarrow> distinct (map fst (fold (\<lambda>ed m. append_edit m u ed) es m))"
  by (induction es arbitrary: m) (auto simp: distinct_append_edit)

lemma distinct_doc_edits: "distinct (map fst m) \<Longrightarrow> distinct (map fst (doc_edits e r doc m))"
proof (induction doc arbitrary: m)
  case Nil
  then show ?case by simp
next
  case (Cons c cs)
  obtain cu es where ce: "comment_edits e r c = (cu, es)"
    by (cases "comment_edits e r c")
  show ?case
    using Cons.IH [of "fold (\<lambda>ed m. append_edit m cu ed) es m"] Cons.IH [of m] Cons.prems ce
    by (simp add: distinct_fold_append_edit)
qed

lemma distinct_update_ref:
  "update_ref e r ref sp m = Inr m' \<Longrightarrow> distinct (map fst m) \<Longrightarrow> distinct (map fst m')"
  by (auto simp: update_ref_def Let_def distinct_append_edit distinct_doc_edits
           split: if_splits sum.splits option.splits)

lemma distinct_update_refs:
  "update_refs e r rs seen m = Inr m' \<Longrightarrow> distinct (map fst m) \<Longrightarrow> distinct (map fst m')"
proof (induction rs arbitrary: seen m)
  case Nil
  then show ?case by simp
next
  case (Cons ref rest)
  from Cons.prems(1) obtain sp where sp: "ref_Span ref = Inr sp"
    by (cases "ref_Span ref") auto
  show ?case
  proof (cases "sp \<in> seen")
    case True
    with Cons.prems sp Cons.IH show ?thesis by simp
  next
    case False
    with Cons.prems(1) sp obtain m1 where
      step: "update_ref e r ref sp m = Inr m1" and
      rest: "update_refs e r rest (insert sp seen) m1 = Inr m'"
      by (cases "update_ref e r ref sp m") auto
    from Cons.IH [OF rest distinct_update_ref [OF step Cons.prems(2)]] show ?thesis .
  qed
qed

lemma protocol_edits_keys: "protocol_edits e m = Inr pm \<Longrightarrow> map fst pm = map fst m"
proof (induction m arbitrary: pm)
  case Nil
  then show ?case by simp
next
  case (Cons a m)
  obtain k eds where a: "a = (k, eds)" by (cases a)
  from Cons.prems a obtain tes pm' where
    r: "protocol_edits e m = Inr pm'" and pm: "pm = (k, tes) # pm'"
    by (auto split: sum.splits)
  from Cons.IH [OF r] a pm show ?case by simp
qed

lemma renameObj_distinct_keys:
  assumes "renameObj e newName qos renameImpls = Inr changes"
  shows "distinct (map fst changes)"
proof -
  from assms obtain r m where u: "update e r = Inr m" and p: "protocol_edits e m = Inr changes"
    by (auto simp: renameObj_def Let_def split: list.splits option.splits if_splits sum.splits)
  have "distinct (map fst m)"
    using distinct_update_refs [of e r "refs r" "{}" "[]" m] u by (simp add: update_def)
  with protocol_edits_keys [OF p] show ?thesis by simp
qed

lemma sort_key_first_min:
  fixes f :: "'a \<Rightarrow> 'b::linorder"
  assumes "\<forall>x\<in>set pre \<union> set post. f a < f x"
  shows "sort_key f (pre @ a # post) = a # sort_key f (pre @ post)"
proof (rule properties_for_sort_key)
  show "mset (a # sort_key f (pre @ post)) = mset (pre @ a # post)"
    by simp
  show "sorted (map f (a # sort_key f (pre @ post)))"
    using assms by (auto simp: less_imp_le)
next
  fix k assume k: "k \<in> set (a # sort_key f (pre @ post))"
  have st: "filter (\<lambda>x. f k = f x) (sort_key f (pre @ post)) = filter (\<lambda>x. f k = f x) (pre @ post)"
    using sort_key_stable [of f "f k" "pre @ post"] by (simp add: eq_commute)
  show "filter (\<lambda>x. f k = f x) (a # sort_key f (pre @ post)) = filter (\<lambda>x. f k = f x) (pre @ a # post)"
  proof (cases "f k = f a")
    case True
    have "filter (\<lambda>x. f k = f x) (pre @ post) = []"
      using assms True by (auto simp: filter_empty_conv)
    moreover from this have "filter (\<lambda>x. f k = f x) pre = []" "filter (\<lambda>x. f k = f x) post = []"
      by simp_all
    ultimately show ?thesis using True st by simp
  next
    case False
    then show ?thesis using st by simp
  qed
qed

text \<open>
  C7, as amended. For an import of the renamed package without a local name, when the
  package name changes: the local name chosen by the loop is the new package name
  exactly when neither the file scope nor the package scope binds the new name. Then
  the edits that the recursive rename of the implicit package name returns for the
  file are sorted and the first is dropped; the edits of the file become the edits so
  far, the edit of the path literal, and the rest of the sorted edits (the uses of
  the package name, renamed); the edits of other files are all kept. When one edit
  of the recursive rename, the insertion of the local name, lies before all its
  other edits in the file, it is the one dropped and does not remain.
\<close>

theorem renameImport_drops_first_change:
  assumes "Unquote e (Path_Value imp) = PackagePath m"
      and "MappedRange e f (Path_ValuePos imp) (Path_End imp) = Inr rng"
      and "newName \<noteq> PackageName m" and "imp_Name imp = None"
      and "Implicits dep imp = Some pkgname" and "is_PkgName pkgname"
      and "Scopes dep (pgf_URI f) = Some fileScope"
      and "newName \<notin> set fileScope" and "newName \<notin> set (Types_Scope dep)"
      and "renameObj e newName
             [\<lparr> qo_obj = pkgname, qo_pkg = dep, qo_sourcePkg = None, qo_node = None \<rparr>] False
             = Inr changes"
      and "edits_at changes (pgf_URI f) \<noteq> []"
  shows "freshLocalName fileScope (Types_Scope dep) newName 0 newName = newName
         \<and> (\<exists>edits'. renameImport e m newPath newName dep f imp edits = Inr edits'
               \<and> edits_at edits' (pgf_URI f)
                   = edits_at edits (pgf_URI f)
                       @ [\<lparr> Range = rng, NewText = Quote e newPath, AnnotationID = [] \<rparr>]
                       @ tl (sort_key Range (edits_at changes (pgf_URI f)))
               \<and> (\<forall>u. u \<noteq> pgf_URI f \<longrightarrow> edits_at edits' u = edits_at edits u @ edits_at changes u))
         \<and> (edits_at changes (pgf_URI f) = pre @ aliasEdit # post
              \<and> (\<forall>te\<in>set pre \<union> set post. Range aliasEdit < Range te) \<longrightarrow>
              tl (sort_key Range (edits_at changes (pgf_URI f))) = sort_key Range (pre @ post)
              \<and> aliasEdit \<notin> set (sort_key Range (pre @ post)))
         \<and> (freshLocalName fs ps newName 0 newName = newName
              \<longleftrightarrow> newName \<notin> set fs \<and> newName \<notin> set ps)"
proof -
  let ?u = "pgf_URI f"
  let ?pathEdit = "\<lparr> Range = rng, NewText = Quote e newPath, AnnotationID = [] \<rparr>"
  let ?edits1 = "append_edit edits ?u ?pathEdit"
  have fresh: "freshLocalName fileScope (Types_Scope dep) newName 0 newName = newName"
    using assms(8,9) by (simp add: fresh_unbound)
  have "sort_key Range (edits_at changes ?u) \<noteq> []"
    using assms(11) by (metis length_0_conv length_sort)
  then obtain first v where sorted: "sort_key Range (edits_at changes ?u) = first # v"
    by (cases "sort_key Range (edits_at changes ?u)") auto
  let ?changes' = "AList.update ?u v changes"
  let ?edits' = "fold (\<lambda>(k, changeEdits) acc. append_edits acc k changeEdits) ?changes' ?edits1"
  have run: "renameImport e m newPath newName dep f imp edits = Inr ?edits'"
    using assms(1-7) assms(10) fresh sorted
    by (simp add: renameImport_def Let_def)
  have d: "distinct (map fst ?changes')"
    using renameObj_distinct_keys [OF assms(10)] by (simp add: distinct_update)
  have at: "edits_at ?edits' u = edits_at ?edits1 u @ edits_at ?changes' u" for u
    using merge_edits_at [OF d] .
  have a1: "edits_at ?edits' ?u = edits_at edits ?u @ [?pathEdit] @ tl (sort_key Range (edits_at changes ?u))"
    using at [of ?u] sorted by (simp add: edits_at_append_edit edits_at_update)
  have a2: "\<forall>u. u \<noteq> ?u \<longrightarrow> edits_at ?edits' u = edits_at edits u @ edits_at changes u"
    using at by (simp add: edits_at_append_edit edits_at_update)
  have b: "edits_at changes ?u = pre @ aliasEdit # post
              \<and> (\<forall>te\<in>set pre \<union> set post. Range aliasEdit < Range te) \<longrightarrow>
              tl (sort_key Range (edits_at changes ?u)) = sort_key Range (pre @ post)
              \<and> aliasEdit \<notin> set (sort_key Range (pre @ post))"
  proof (intro impI)
    assume h: "edits_at changes ?u = pre @ aliasEdit # post
              \<and> (\<forall>te\<in>set pre \<union> set post. Range aliasEdit < Range te)"
    then have "sort_key Range (edits_at changes ?u) = aliasEdit # sort_key Range (pre @ post)"
      using sort_key_first_min [of pre post Range aliasEdit] by simp
    moreover have "aliasEdit \<notin> set pre \<union> set post"
      using h by auto
    ultimately show "tl (sort_key Range (edits_at changes ?u)) = sort_key Range (pre @ post)
              \<and> aliasEdit \<notin> set (sort_key Range (pre @ post))"
      by simp
  qed
  show ?thesis
    using fresh run a1 a2 b fresh_eq_newName_iff [of fs ps newName] by blast
qed

text \<open>
  The example of the spec's section 8: the package a/old of the module a is renamed
  to new; the file b/b.go of the package a/b imports "a/old" at offset 30 without a
  local name and uses old.X at offset 60; its scopes do not bind new.
\<close>

definition ex_import_spec :: ImportSpec where
  "ex_import_spec = \<lparr> imp_Name = None, Path_ValuePos = 30, Path_Value = CHR 0x22 # ''a/old'' @ [CHR 0x22] \<rparr>"

definition ex_b_file :: ParsedGoFile where
  "ex_b_file = \<lparr> pgf_URI = ''b/b.go'', File_Name = Some \<lparr> NamePos = 8, ident_Name = ''b'' \<rparr>,
                 File_Imports = [ex_import_spec] \<rparr>"

definition ex_old_pkgname :: Object where
  "ex_old_pkgname = \<lparr> obj_id = 5, obj_Name = ''old'', obj_Pos = 30, obj_Pkg = 2, obj_kind = PkgName ''old'' \<rparr>"

definition ex_b_pkg :: Package where
  "ex_b_pkg = \<lparr> pkg_Name = ''b'', pkg_ParseMode = ParseFull, CompiledGoFiles = [ex_b_file], GetTypes = 2,
                Types_Scope = [''F''],
                Implicits = (\<lambda>spec. if spec = ex_import_spec then Some ex_old_pkgname else None),
                Scopes = (\<lambda>u. if u = ''b/b.go'' then Some [''old'', ''fmt''] else None) \<rparr>"

definition ex_b_meta :: Metadata where
  "ex_b_meta = \<lparr> PackageID = ''a/b'', PackageName = ''b'', PackagePath = ''a/b'', ModuleInfo = Some ''a'' \<rparr>"

definition ex_old_refs :: "ReferenceInfo list" where
  "ex_old_refs =
     [\<lparr> ref_Span = Inr (ex_span ''b/b.go'' 30 37), ref_ident = None, ref_obj = ex_old_pkgname,
        ref_pkg = ex_b_pkg, isDeclaration = True \<rparr>,
      \<lparr> ref_Span = Inr (ex_span ''b/b.go'' 60 63), ref_ident = Some \<lparr> NamePos = 60, ident_Name = ''old'' \<rparr>,
        ref_obj = ex_old_pkgname, ref_pkg = ex_b_pkg, isDeclaration = False \<rparr>]"

definition ex_ws_env :: env where
  "ex_ws_env =
     (ex_clause_env ''old'')
       \<lparr> GetReverseDependencies := (\<lambda>i. if i = ''a/old'' then Inr [ex_b_pkg] else Inr []),
         AllValidMetadata := Inr [ex_clause_meta ''old'', ex_b_meta],
         references := (\<lambda>qos. Inr ex_old_refs),
         pathEnclosingInterval :=
           (\<lambda>p a b. (ex_tokFile \<lparr> tok_Name := ''b/b.go'' \<rparr>,
                      [OtherNode, ImportSpecNode ex_import_spec, GenDecl None, FileNode []])) \<rparr>"

definition ex_alias_insertion :: TextEdit where
  "ex_alias_insertion = \<lparr> Range = ((0, 30), (0, 30)), NewText = ''new '', AnnotationID = [] \<rparr>"

definition ex_use_edit :: TextEdit where
  "ex_use_edit = \<lparr> Range = ((0, 60), (0, 63)), NewText = ''new'', AnnotationID = [] \<rparr>"

definition ex_path_edit :: TextEdit where
  "ex_path_edit = \<lparr> Range = ((0, 30), (0, 37)), NewText = CHR 0x22 # ''a/new'' @ [CHR 0x22],
                    AnnotationID = [] \<rparr>"

theorem renameImport_drops_first_change_witness:
  "(\<exists>edits'. renameImport ex_ws_env (ex_clause_meta ''old'') ''a/new'' ''new'' ex_b_pkg ex_b_file
                ex_import_spec [] = Inr edits'
             \<and> edits_at edits' ''b/b.go'' = [ex_path_edit, ex_use_edit])
   \<and> freshLocalName [''old'', ''fmt''] [''F''] ''new'' 0 ''new'' = ''new''
   \<and> renameObj ex_ws_env ''new''
        [\<lparr> qo_obj = ex_old_pkgname, qo_pkg = ex_b_pkg, qo_sourcePkg = None, qo_node = None \<rparr>] False
      = Inr [(''b/b.go'', [ex_alias_insertion, ex_use_edit])]"
proof -
  let ?changes = "[(''b/b.go'', [ex_alias_insertion, ex_use_edit])]"
  have h1: "Unquote ex_ws_env (Path_Value ex_import_spec) = PackagePath (ex_clause_meta ''old'')"
    by code_simp
  have h2: "MappedRange ex_ws_env ex_b_file (Path_ValuePos ex_import_spec) (Path_End ex_import_spec)
              = Inr ((0, 30), (0, 37))"
    by code_simp
  have h3: "''new'' \<noteq> PackageName (ex_clause_meta ''old'')" and h4: "imp_Name ex_import_spec = None"
    by code_simp+
  have h5: "Implicits ex_b_pkg ex_import_spec = Some ex_old_pkgname" and h6: "is_PkgName ex_old_pkgname"
    by code_simp+
  have h7: "Scopes ex_b_pkg (pgf_URI ex_b_file) = Some [''old'', ''fmt'']"
    by code_simp
  have h8: "''new'' \<notin> set [''old'', ''fmt'']" and h9: "''new'' \<notin> set (Types_Scope ex_b_pkg)"
    by code_simp+
  have h10: "renameObj ex_ws_env ''new''
               [\<lparr> qo_obj = ex_old_pkgname, qo_pkg = ex_b_pkg, qo_sourcePkg = None, qo_node = None \<rparr>] False
             = Inr ?changes"
    by code_simp
  have h11: "edits_at ?changes (pgf_URI ex_b_file) \<noteq> []"
    by code_simp
  have srt: "tl (sort_key Range (edits_at ?changes (pgf_URI ex_b_file))) = [ex_use_edit]"
    by code_simp
  have pe: "\<lparr> Range = ((0, 30), (0, 37)), NewText = Quote ex_ws_env ''a/new'', AnnotationID = [] \<rparr> = ex_path_edit"
    by code_simp
  have u: "pgf_URI ex_b_file = ''b/b.go''"
    by code_simp
  have ts: "Types_Scope ex_b_pkg = [''F'']"
    by code_simp
  from renameImport_drops_first_change [OF h1 h2 h3 h4 h5 h6 h7 h8 h9 h10 h11,
         where newPath = "''a/new''" and edits = "[]" and pre = "[]" and aliasEdit = ex_alias_insertion
           and post = "[ex_use_edit]" and fs = "[]" and ps = "[]"]
  show ?thesis
    using srt pe u h10 ts by (simp add: edits_at_Nil) blast
qed

text \<open>
  The claim as stated fails on the example: for the file b/b.go, Rename keeps the
  edit of the path literal and also the edit that renames the use of the package at
  offset 60, not the path literal alone.
\<close>

theorem recursive_rename_edits_are_kept:
  "Rename ex_ws_env ''old/old.go'' (0, 9) ''new''
     = (Some [(''old/old.go'', [\<lparr> Range = ((0, 8), (0, 11)), NewText = ''new'', AnnotationID = [] \<rparr>]),
              (''b/b.go'', [\<lparr> Range = ((0, 30), (0, 37)), NewText = CHR 0x22 # ''a/new'' @ [CHR 0x22],
                              AnnotationID = [] \<rparr>,
                            \<lparr> Range = ((0, 60), (0, 63)), NewText = ''new'', AnnotationID = [] \<rparr>])],
        None, True, None)"
  by code_simp

subsection \<open>The new import paths and the package clause\<close>

text \<open>
  The files that a package rename visits for an import path \<open>p\<close>: the files of the
  packages at \<open>p\<close> (for their package clause) and the files of the fully parsed
  reverse dependencies of the packages at \<open>p\<close> (for their imports).
\<close>

definition clause_files :: "env \<Rightarrow> Metadata list \<Rightarrow> string \<Rightarrow> ParsedGoFile set" where
  "clause_files e ms p =
     {f. \<exists>m\<in>set ms. PackagePath m = p
           \<and> (\<exists>pk. WorkspacePackageByID e (PackageID m) = Inr pk \<and> f \<in> set (CompiledGoFiles pk))}"

definition import_files :: "env \<Rightarrow> Metadata list \<Rightarrow> string \<Rightarrow> ParsedGoFile set" where
  "import_files e ms p =
     {f. \<exists>m\<in>set ms. PackagePath m = p
           \<and> (\<exists>rdeps dep. GetReverseDependencies e (PackageID m) = Inr rdeps \<and> dep \<in> set rdeps
                 \<and> pkg_ParseMode dep = ParseFull \<and> f \<in> set (CompiledGoFiles dep))}"

text \<open>
  What the claim asks of the edits of a file: every import of \<open>p\<close> in it has an edit
  that replaces the path literal by the quoted new path; its package clause has an
  edit that replaces the name by \<open>n\<close>.
\<close>

definition import_rewritten :: "env \<Rightarrow> string \<Rightarrow> string \<Rightarrow> ParsedGoFile \<Rightarrow> TextEdit edit_map \<Rightarrow> bool" where
  "import_rewritten e p newPath f edits =
     (\<forall>imp\<in>set (File_Imports f). Unquote e (Path_Value imp) = p \<longrightarrow>
        (\<exists>rng. MappedRange e f (Path_ValuePos imp) (Path_End imp) = Inr rng
           \<and> \<lparr> Range = rng, NewText = Quote e newPath, AnnotationID = [] \<rparr>
               \<in> set (edits_at edits (pgf_URI f))))"

definition clause_rewritten :: "env \<Rightarrow> string \<Rightarrow> ParsedGoFile \<Rightarrow> TextEdit edit_map \<Rightarrow> bool" where
  "clause_rewritten e n f edits =
     (\<forall>nm. File_Name f = Some nm \<longrightarrow>
        (\<exists>rng. MappedRange e f (NamePos nm) (Ident_End nm) = Inr rng
           \<and> \<lparr> Range = rng, NewText = n, AnnotationID = [] \<rparr> \<in> set (edits_at edits (pgf_URI f))))"

text \<open>Edits are only ever appended.\<close>

definition grows :: "'e edit_map \<Rightarrow> 'e edit_map \<Rightarrow> bool" where
  "grows edits edits' = (\<forall>u. set (edits_at edits u) \<subseteq> set (edits_at edits' u))"

lemma grows_refl: "grows edits edits"
  by (simp add: grows_def)

lemma grows_trans: "grows a b \<Longrightarrow> grows b c \<Longrightarrow> grows a c"
  by (auto simp: grows_def)

lemma grows_mem: "grows a b \<Longrightarrow> x \<in> set (edits_at a u) \<Longrightarrow> x \<in> set (edits_at b u)"
  unfolding grows_def by blast

lemma grows_append_edits: "grows edits (append_edits edits u es)"
  by (auto simp: grows_def edits_at_append_edits)

lemma grows_append_edit: "grows edits (append_edit edits u ed)"
  by (auto simp: grows_def edits_at_append_edit)

lemma grows_merge: "grows acc (fold (\<lambda>(k, changeEdits) a. append_edits a k changeEdits) xs acc)"
proof (induction xs arbitrary: acc)
  case Nil
  show ?case by (simp add: grows_refl)
next
  case (Cons x xs)
  obtain k es where x: "x = (k, es)" by (cases x)
  show ?case
    using Cons.IH [of "append_edits acc k es"] grows_append_edits [of acc k es] x
    by (auto intro: grows_trans)
qed

lemma import_rewritten_grows:
  "import_rewritten e p np f edits \<Longrightarrow> grows edits edits' \<Longrightarrow> import_rewritten e p np f edits'"
  unfolding import_rewritten_def grows_def by blast

lemma clause_rewritten_grows:
  "clause_rewritten e n f edits \<Longrightarrow> grows edits edits' \<Longrightarrow> clause_rewritten e n f edits'"
  unfolding clause_rewritten_def grows_def by blast

lemma renameImport_grows:
  assumes "renameImport e m np nn dep f imp edits = Inr edits'"
  shows "grows edits edits'"
proof -
  have g1: "grows edits (append_edit edits u te)" for u te
    by (rule grows_append_edit)
  have g2: "grows edits (fold (\<lambda>(k, changeEdits) a. append_edits a k changeEdits) xs (append_edit edits u te))"
    for u te xs
    using grows_trans [OF g1 grows_merge] .
  show ?thesis
    using assms g1 g2 grows_refl [of edits]
    by (auto simp: renameImport_def Let_def split: if_splits sum.splits option.splits list.splits)
qed

lemma renameImport_path_edit:
  assumes "renameImport e m np nn dep f imp edits = Inr edits'"
      and "Unquote e (Path_Value imp) = PackagePath m"
  shows "\<exists>rng. MappedRange e f (Path_ValuePos imp) (Path_End imp) = Inr rng
           \<and> \<lparr> Range = rng, NewText = Quote e np, AnnotationID = [] \<rparr> \<in> set (edits_at edits' (pgf_URI f))"
proof -
  from assms obtain rng where rng: "MappedRange e f (Path_ValuePos imp) (Path_End imp) = Inr rng"
    by (cases "MappedRange e f (Path_ValuePos imp) (Path_End imp)") (auto simp: renameImport_def)
  let ?te = "\<lparr> Range = rng, NewText = Quote e np, AnnotationID = [] \<rparr>"
  let ?edits1 = "append_edit edits (pgf_URI f) ?te"
  have in1: "?te \<in> set (edits_at ?edits1 (pgf_URI f))"
    by (simp add: edits_at_append_edit)
  have g: "grows ?edits1 edits'"
    using assms rng grows_merge [of ?edits1] grows_refl [of ?edits1]
    by (auto simp: renameImport_def Let_def split: if_splits sum.splits option.splits list.splits)
  have "?te \<in> set (edits_at edits' (pgf_URI f))"
    by (rule grows_mem [OF g in1])
  with rng show ?thesis by blast
qed

lemma renameImports_specs_rewrites:
  assumes "renameImports_specs e m np nn dep f imps edits = Inr edits'"
  shows "grows edits edits'
         \<and> (\<forall>imp\<in>set imps. Unquote e (Path_Value imp) = PackagePath m \<longrightarrow>
              (\<exists>rng. MappedRange e f (Path_ValuePos imp) (Path_End imp) = Inr rng
                 \<and> \<lparr> Range = rng, NewText = Quote e np, AnnotationID = [] \<rparr>
                     \<in> set (edits_at edits' (pgf_URI f))))"
  using assms
proof (induction imps arbitrary: edits)
  case Nil
  then show ?case by (simp add: grows_refl)
next
  case (Cons imp imps)
  from Cons.prems obtain edits1 where
    s1: "renameImport e m np nn dep f imp edits = Inr edits1" and
    s2: "renameImports_specs e m np nn dep f imps edits1 = Inr edits'"
    by (auto split: sum.splits)
  from Cons.IH [OF s2] have g2: "grows edits1 edits'" and
    r2: "\<forall>imp\<in>set imps. Unquote e (Path_Value imp) = PackagePath m \<longrightarrow>
              (\<exists>rng. MappedRange e f (Path_ValuePos imp) (Path_End imp) = Inr rng
                 \<and> \<lparr> Range = rng, NewText = Quote e np, AnnotationID = [] \<rparr>
                     \<in> set (edits_at edits' (pgf_URI f)))"
    by blast+
  have g: "grows edits edits'"
    using grows_trans [OF renameImport_grows [OF s1] g2] .
  have r1: "Unquote e (Path_Value imp) = PackagePath m \<longrightarrow>
              (\<exists>rng. MappedRange e f (Path_ValuePos imp) (Path_End imp) = Inr rng
                 \<and> \<lparr> Range = rng, NewText = Quote e np, AnnotationID = [] \<rparr>
                     \<in> set (edits_at edits' (pgf_URI f)))"
  proof
    assume "Unquote e (Path_Value imp) = PackagePath m"
    from renameImport_path_edit [OF s1 this] grows_mem [OF g2]
    show "\<exists>rng. MappedRange e f (Path_ValuePos imp) (Path_End imp) = Inr rng
                 \<and> \<lparr> Range = rng, NewText = Quote e np, AnnotationID = [] \<rparr>
                     \<in> set (edits_at edits' (pgf_URI f))"
      by blast
  qed
  show ?case using g r1 r2 by simp
qed

text \<open>
  The invariant of the loops of renamePackage: every recorded pair of a URI and an
  import path stands for a file of that URI that was visited for the path, and whose
  package clause or imports of the path are rewritten in the edits so far.
\<close>

definition clause_name :: "string \<Rightarrow> string \<Rightarrow> string \<Rightarrow> string" where
  "clause_name oldPath newName p = (if p = oldPath then newName else newName @ ''_test'')"

definition new_path :: "string \<Rightarrow> string \<Rightarrow> string \<Rightarrow> string" where
  "new_path oldPath newPathPrefix p = newPathPrefix @ TrimPrefix p oldPath"

definition accounted ::
  "env \<Rightarrow> Metadata list \<Rightarrow> string \<Rightarrow> string \<Rightarrow> string \<Rightarrow> rename_state \<Rightarrow> bool" where
  "accounted e ms oldPath newName newPathPrefix st =
     (\<forall>u p. seen_lookup (fst st) (u, p) \<longrightarrow>
        (\<exists>f\<in>clause_files e ms p. pgf_URI f = u
            \<and> clause_rewritten e (clause_name oldPath newName p) f (snd st))
        \<or> (\<exists>f\<in>import_files e ms p. pgf_URI f = u
            \<and> import_rewritten e p (new_path oldPath newPathPrefix p) f (snd st)))"

lemma accounted_grows:
  assumes "accounted e ms oldPath newName pre (seen, edits)" and "grows edits edits'"
  shows "accounted e ms oldPath newName pre (seen, edits')"
  using assms clause_rewritten_grows [OF _ assms(2)] import_rewritten_grows [OF _ assms(2)]
  unfolding accounted_def by (simp, blast)

lemma accounted_add_clause:
  assumes "accounted e ms oldPath newName pre (seen, edits)"
      and "f \<in> clause_files e ms p"
      and "clause_rewritten e (clause_name oldPath newName p) f edits"
  shows "accounted e ms oldPath newName pre (seen((pgf_URI f, p) \<mapsto> True), edits)"
  using assms unfolding accounted_def by (simp add: seen_lookup_upd, blast)

lemma accounted_add_import:
  assumes "accounted e ms oldPath newName pre (seen, edits)"
      and "f \<in> import_files e ms p"
      and "import_rewritten e p (new_path oldPath pre p) f edits"
  shows "accounted e ms oldPath newName pre (seen((pgf_URI f, p) \<mapsto> True), edits)"
  using assms unfolding accounted_def by (simp add: seen_lookup_upd, blast)

lemma clause_files_accounted:
  assumes "renamePackageClause_files e m n fs (seen, edits) = Inr (seen', edits')"
      and "accounted e ms oldPath newName pre (seen, edits)"
      and "set fs \<subseteq> clause_files e ms (PackagePath m)"
      and "n = clause_name oldPath newName (PackagePath m)"
  shows "accounted e ms oldPath newName pre (seen', edits')"
  using assms(1,2,3)
proof (induction fs arbitrary: seen edits)
  case Nil
  then show ?case by simp
next
  case (Cons f fs)
  have fin: "f \<in> clause_files e ms (PackagePath m)" and sub: "set fs \<subseteq> clause_files e ms (PackagePath m)"
    using Cons.prems(3) by auto
  show ?case
  proof (cases "seen_lookup seen (pgf_URI f, PackagePath m)")
    case True
    with Cons.prems(1) have "renamePackageClause_files e m n fs (seen, edits) = Inr (seen', edits')"
      by (simp add: add_seen)
    from Cons.IH [OF this Cons.prems(2) sub] show ?thesis .
  next
    case False
    let ?s = "seen((pgf_URI f, PackagePath m) \<mapsto> True)"
    show ?thesis
    proof (cases "File_Name f")
      case None
      with Cons.prems(1) False have r: "renamePackageClause_files e m n fs (?s, edits) = Inr (seen', edits')"
        by (simp add: add_unseen)
      have "clause_rewritten e (clause_name oldPath newName (PackagePath m)) f edits"
        using None by (simp add: clause_rewritten_def)
      from Cons.IH [OF r accounted_add_clause [OF Cons.prems(2) fin this] sub] show ?thesis .
    next
      case (Some nm)
      with Cons.prems(1) False obtain rng where
        rng: "MappedRange e f (NamePos nm) (Ident_End nm) = Inr rng" and
        r: "renamePackageClause_files e m n fs
              (?s, append_edit edits (pgf_URI f) \<lparr> Range = rng, NewText = n, AnnotationID = [] \<rparr>)
            = Inr (seen', edits')"
        by (auto simp: add_unseen split: sum.splits)
      let ?edits1 = "append_edit edits (pgf_URI f) \<lparr> Range = rng, NewText = n, AnnotationID = [] \<rparr>"
      have a1: "accounted e ms oldPath newName pre (seen, ?edits1)"
        using accounted_grows [OF Cons.prems(2) grows_append_edit] .
      have "clause_rewritten e (clause_name oldPath newName (PackagePath m)) f ?edits1"
        unfolding clause_rewritten_def
      proof (intro allI impI)
        fix nm' assume "File_Name f = Some nm'"
        with Some have "nm' = nm" by simp
        with rng assms(4)
        show "\<exists>r. MappedRange e f (NamePos nm') (Ident_End nm') = Inr r
                 \<and> \<lparr> Range = r, NewText = clause_name oldPath newName (PackagePath m), AnnotationID = [] \<rparr>
                     \<in> set (edits_at ?edits1 (pgf_URI f))"
          by (intro exI [of _ rng]) (simp add: edits_at_append_edit)
      qed
      from Cons.IH [OF r accounted_add_clause [OF a1 fin this] sub] show ?thesis .
    qed
  qed
qed

lemma clause_files_grows:
  assumes "renamePackageClause_files e m n fs (seen, edits) = Inr (seen', edits')"
  shows "grows edits edits'"
  using assms
proof (induction fs arbitrary: seen edits)
  case Nil
  then show ?case by (simp add: grows_refl)
next
  case (Cons f fs)
  obtain was s1 where a: "add seen (pgf_URI f) (PackagePath m) = (was, s1)"
    by (cases "add seen (pgf_URI f) (PackagePath m)")
  from Cons.prems a obtain edits1 where
    g: "grows edits edits1" and r: "renamePackageClause_files e m n fs (s1, edits1) = Inr (seen', edits')"
    using grows_refl [of edits] grows_append_edit [of edits]
    by (auto split: if_splits option.splits sum.splits)
  from grows_trans [OF g Cons.IH [OF r]] show ?case .
qed

lemma imports_files_accounted:
  assumes "renameImports_files e m np nn dep fs (seen, edits) = Inr (seen', edits')"
      and "accounted e ms oldPath newName pre (seen, edits)"
      and "set fs \<subseteq> import_files e ms (PackagePath m)"
      and "np = new_path oldPath pre (PackagePath m)"
  shows "accounted e ms oldPath newName pre (seen', edits') \<and> grows edits edits'"
  using assms(1,2,3)
proof (induction fs arbitrary: seen edits)
  case Nil
  then show ?case by (simp add: grows_refl)
next
  case (Cons f fs)
  have fin: "f \<in> import_files e ms (PackagePath m)" and sub: "set fs \<subseteq> import_files e ms (PackagePath m)"
    using Cons.prems(3) by auto
  show ?case
  proof (cases "seen_lookup seen (pgf_URI f, PackagePath m)")
    case True
    with Cons.prems(1) have "renameImports_files e m np nn dep fs (seen, edits) = Inr (seen', edits')"
      by (simp add: add_seen)
    from Cons.IH [OF this Cons.prems(2) sub] show ?thesis .
  next
    case False
    let ?s = "seen((pgf_URI f, PackagePath m) \<mapsto> True)"
    from Cons.prems(1) False obtain edits1 where
      sp: "renameImports_specs e m np nn dep f (File_Imports f) edits = Inr edits1" and
      r: "renameImports_files e m np nn dep fs (?s, edits1) = Inr (seen', edits')"
      by (auto simp: add_unseen split: sum.splits)
    from renameImports_specs_rewrites [OF sp]
    have g: "grows edits edits1" and rw: "import_rewritten e (PackagePath m) np f edits1"
      by (auto simp: import_rewritten_def)
    have a1: "accounted e ms oldPath newName pre (seen, edits1)"
      using accounted_grows [OF Cons.prems(2) g] .
    have "import_rewritten e (PackagePath m) (new_path oldPath pre (PackagePath m)) f edits1"
      using rw assms(4) by simp
    from Cons.IH [OF r accounted_add_import [OF a1 fin this] sub] grows_trans [OF g]
    show ?thesis by blast
  qed
qed

lemma imports_deps_accounted:
  assumes "renameImports_deps e m np nn deps st = Inr st'"
      and "accounted e ms oldPath newName pre st"
      and "\<forall>dep\<in>set deps. pkg_ParseMode dep = ParseFull \<longrightarrow>
             set (CompiledGoFiles dep) \<subseteq> import_files e ms (PackagePath m)"
      and "np = new_path oldPath pre (PackagePath m)"
  shows "accounted e ms oldPath newName pre st' \<and> grows (snd st) (snd st')
         \<and> (\<forall>k. seen_lookup (fst st) k \<longrightarrow> seen_lookup (fst st') k)
         \<and> (\<forall>dep\<in>set deps. pkg_ParseMode dep = ParseFull \<longrightarrow>
               (\<forall>f\<in>set (CompiledGoFiles dep). seen_lookup (fst st') (pgf_URI f, PackagePath m)))"
  using assms(1,2,3)
proof (induction deps arbitrary: st)
  case Nil
  then show ?case by (simp add: grows_refl)
next
  case (Cons dep deps)
  have rest: "\<forall>d\<in>set deps. pkg_ParseMode d = ParseFull \<longrightarrow>
             set (CompiledGoFiles d) \<subseteq> import_files e ms (PackagePath m)"
    using Cons.prems(3) by simp
  show ?case
  proof (cases "pkg_ParseMode dep = ParseFull")
    case False
    with Cons.prems(1) have "renameImports_deps e m np nn deps st = Inr st'" by simp
    from Cons.IH [OF this Cons.prems(2) rest] False show ?thesis by simp
  next
    case True
    obtain seen edits where st: "st = (seen, edits)" by (cases st)
    from Cons.prems(1) True st obtain seen1 edits1 where
      f1: "renameImports_files e m np nn dep (CompiledGoFiles dep) (seen, edits) = Inr (seen1, edits1)" and
      r: "renameImports_deps e m np nn deps (seen1, edits1) = Inr st'"
      by (auto split: sum.splits)
    have sub: "set (CompiledGoFiles dep) \<subseteq> import_files e ms (PackagePath m)"
      using Cons.prems(3) True by simp
    from imports_files_accounted [OF f1 _ sub assms(4)] Cons.prems(2) st
    have a1: "accounted e ms oldPath newName pre (seen1, edits1)" and g1: "grows edits edits1"
      by blast+
    from imports_files_seen_after [OF f1]
    have m1: "\<forall>k. seen_lookup seen k \<longrightarrow> seen_lookup seen1 k"
      and s1: "\<forall>f\<in>set (CompiledGoFiles dep). seen_lookup seen1 (pgf_URI f, PackagePath m)"
      by blast+
    from Cons.IH [OF r a1 rest]
    have a2: "accounted e ms oldPath newName pre st'" and g2: "grows edits1 (snd st')"
      and m2: "\<forall>k. seen_lookup seen1 k \<longrightarrow> seen_lookup (fst st') k"
      and s2: "\<forall>d\<in>set deps. pkg_ParseMode d = ParseFull \<longrightarrow>
               (\<forall>f\<in>set (CompiledGoFiles d). seen_lookup (fst st') (pgf_URI f, PackagePath m))"
      by simp_all
    have "grows (snd st) (snd st')"
      using grows_trans [OF g1 g2] st by simp
    moreover have "\<forall>k. seen_lookup (fst st) k \<longrightarrow> seen_lookup (fst st') k"
      using m1 m2 st by simp
    moreover have "\<forall>f\<in>set (CompiledGoFiles dep). seen_lookup (fst st') (pgf_URI f, PackagePath m)"
      using s1 m2 by blast
    ultimately show ?thesis
      using a2 s2 by simp
  qed
qed

lemma renameImports_accounted:
  assumes "renameImports e m np nn st = Inr st'"
      and "accounted e ms oldPath newName pre st"
      and "m \<in> set ms"
      and "np = new_path oldPath pre (PackagePath m)"
  shows "accounted e ms oldPath newName pre st'
         \<and> (\<forall>k. seen_lookup (fst st) k \<longrightarrow> seen_lookup (fst st') k)
         \<and> (\<forall>f\<in>import_files e [m] (PackagePath m). seen_lookup (fst st') (pgf_URI f, PackagePath m))"
proof -
  from assms(1) obtain rdeps where
    rd: "GetReverseDependencies e (PackageID m) = Inr rdeps" and
    run: "renameImports_deps e m np nn rdeps st = Inr st'"
    by (auto simp: renameImports_def split: sum.splits)
  have sub: "\<forall>dep\<in>set rdeps. pkg_ParseMode dep = ParseFull \<longrightarrow>
             set (CompiledGoFiles dep) \<subseteq> import_files e ms (PackagePath m)"
    using rd assms(3) by (auto simp: import_files_def)
  from imports_deps_accounted [OF run assms(2) sub assms(4)]
  have a: "accounted e ms oldPath newName pre st'"
    and mono: "\<forall>k. seen_lookup (fst st) k \<longrightarrow> seen_lookup (fst st') k"
    and seen: "\<forall>dep\<in>set rdeps. pkg_ParseMode dep = ParseFull \<longrightarrow>
               (\<forall>f\<in>set (CompiledGoFiles dep). seen_lookup (fst st') (pgf_URI f, PackagePath m))"
    by simp_all
  have "\<forall>f\<in>import_files e [m] (PackagePath m). seen_lookup (fst st') (pgf_URI f, PackagePath m)"
    using seen rd by (auto simp: import_files_def)
  with a mono show ?thesis by simp
qed

lemma renamePackageClause_accounted:
  assumes "renamePackageClause e m n st = Inr st'"
      and "accounted e ms oldPath newName pre st"
      and "m \<in> set ms"
      and "n = clause_name oldPath newName (PackagePath m)"
  shows "accounted e ms oldPath newName pre st'
         \<and> (\<forall>k. seen_lookup (fst st) k \<longrightarrow> seen_lookup (fst st') k)
         \<and> (\<forall>f\<in>clause_files e [m] (PackagePath m). seen_lookup (fst st') (pgf_URI f, PackagePath m))"
proof -
  obtain seen edits where st: "st = (seen, edits)" by (cases st)
  obtain seen' edits' where st': "st' = (seen', edits')" by (cases st')
  from assms(1) st st' obtain pk where
    pk: "WorkspacePackageByID e (PackageID m) = Inr pk" and
    run: "renamePackageClause_files e m n (CompiledGoFiles pk) (seen, edits) = Inr (seen', edits')"
    by (auto simp: renamePackageClause_def split: sum.splits)
  have sub: "set (CompiledGoFiles pk) \<subseteq> clause_files e ms (PackagePath m)"
    using pk assms(3) by (auto simp: clause_files_def)
  have a: "accounted e ms oldPath newName pre (seen', edits')"
    using clause_files_accounted [OF run _ sub assms(4)] assms(2) st by simp
  from clause_files_seen_after [OF run]
  have mono: "\<forall>k. seen_lookup seen k \<longrightarrow> seen_lookup seen' k"
    and seen: "\<forall>f\<in>set (CompiledGoFiles pk). seen_lookup seen' (pgf_URI f, PackagePath m)"
    by blast+
  have "\<forall>f\<in>clause_files e [m] (PackagePath m). seen_lookup seen' (pgf_URI f, PackagePath m)"
    using seen pk by (auto simp: clause_files_def)
  with a mono st st' show ?thesis by simp
qed

lemma clause_name_test: "clause_name oldPath newName (oldPath @ ''_test'') = newName @ ''_test''"
  by (simp add: clause_name_def)

lemma step_accounted:
  assumes "renamePackage_step e modulePath oldPath newName pre m st = Inr st'"
      and "accounted e ms oldPath newName pre st"
      and "m \<in> set ms"
  shows "accounted e ms oldPath newName pre st'
         \<and> (\<forall>k. seen_lookup (fst st) k \<longrightarrow> seen_lookup (fst st') k)
         \<and> (PackagePath m \<noteq> oldPath @ ''_test'' \<and> HasPrefix (PackagePath m @ ''/'') (oldPath @ ''/'')
              \<and> ModuleInfo m = Some modulePath \<longrightarrow>
              (\<forall>f\<in>import_files e [m] (PackagePath m). seen_lookup (fst st') (pgf_URI f, PackagePath m))
              \<and> (PackagePath m = oldPath \<longrightarrow>
                   (\<forall>f\<in>clause_files e [m] (PackagePath m). seen_lookup (fst st') (pgf_URI f, PackagePath m))))"
proof (cases "PackagePath m = oldPath @ ''_test''")
  case True
  with assms(1) have run: "renamePackageClause e m (newName @ ''_test'') st = Inr st'"
    by (simp add: renamePackage_step_def)
  have n: "newName @ ''_test'' = clause_name oldPath newName (PackagePath m)"
    using True by (simp add: clause_name_test)
  from renamePackageClause_accounted [OF run assms(2,3) n] True show ?thesis by simp
next
  case nt: False
  show ?thesis
  proof (cases "HasPrefix (PackagePath m @ ''/'') (oldPath @ ''/'')")
    case False
    with assms nt show ?thesis by (simp add: renamePackage_step_def)
  next
    case hp: True
    show ?thesis
    proof (cases "ModuleInfo m")
      case None
      with assms(1) nt hp show ?thesis by (simp add: renamePackage_step_def)
    next
      case (Some mPath)
      show ?thesis
      proof (cases "modulePath = mPath")
        case False
        with assms nt hp Some show ?thesis by (auto simp: renamePackage_step_def)
      next
        case same: True
        let ?np = "pre @ TrimPrefix (PackagePath m) oldPath"
        have np: "?np = new_path oldPath pre (PackagePath m)"
          by (simp add: new_path_def)
        show ?thesis
        proof (cases "PackagePath m = oldPath")
          case True
          from assms(1) nt hp Some same True obtain st1 where
            c: "renamePackageClause e m newName st = Inr st1" and
            i: "renameImports e m ?np newName st1 = Inr st'"
            by (auto simp: renamePackage_step_def Let_def split: sum.splits)
          have n: "newName = clause_name oldPath newName (PackagePath m)"
            using True by (simp add: clause_name_def)
          from renamePackageClause_accounted [OF c assms(2,3) n]
          have a1: "accounted e ms oldPath newName pre st1"
            and m1: "\<forall>k. seen_lookup (fst st) k \<longrightarrow> seen_lookup (fst st1) k"
            and s1: "\<forall>f\<in>clause_files e [m] (PackagePath m). seen_lookup (fst st1) (pgf_URI f, PackagePath m)"
            by simp_all
          from renameImports_accounted [OF i a1 assms(3) np]
          have a2: "accounted e ms oldPath newName pre st'"
            and m2: "\<forall>k. seen_lookup (fst st1) k \<longrightarrow> seen_lookup (fst st') k"
            and s2: "\<forall>f\<in>import_files e [m] (PackagePath m). seen_lookup (fst st') (pgf_URI f, PackagePath m)"
            by simp_all
          have "\<forall>f\<in>clause_files e [m] (PackagePath m). seen_lookup (fst st') (pgf_URI f, PackagePath m)"
            using s1 m2 by blast
          moreover have "\<forall>k. seen_lookup (fst st) k \<longrightarrow> seen_lookup (fst st') k"
            using m1 m2 by blast
          ultimately show ?thesis using a2 s2 by blast
        next
          case False
          from assms(1) nt hp Some same False have
            i: "renameImports e m ?np (PackageName m) st = Inr st'"
            by (auto simp: renamePackage_step_def Let_def)
          from renameImports_accounted [OF i assms(2,3) np] False show ?thesis by simp
        qed
      qed
    qed
  qed
qed

lemma loop_accounted:
  assumes "renamePackage_loop e modulePath oldPath newName pre ms' st = Inr st'"
      and "accounted e ms oldPath newName pre st"
      and "set ms' \<subseteq> set ms"
  shows "accounted e ms oldPath newName pre st'
         \<and> (\<forall>k. seen_lookup (fst st) k \<longrightarrow> seen_lookup (fst st') k)
         \<and> (\<forall>m\<in>set ms'. PackagePath m \<noteq> oldPath @ ''_test''
               \<and> HasPrefix (PackagePath m @ ''/'') (oldPath @ ''/'')
               \<and> ModuleInfo m = Some modulePath \<longrightarrow>
              (\<forall>f\<in>import_files e [m] (PackagePath m). seen_lookup (fst st') (pgf_URI f, PackagePath m))
              \<and> (PackagePath m = oldPath \<longrightarrow>
                   (\<forall>f\<in>clause_files e [m] (PackagePath m). seen_lookup (fst st') (pgf_URI f, PackagePath m))))"
  using assms
proof (induction ms' arbitrary: st)
  case Nil
  then show ?case by simp
next
  case (Cons m ms')
  from Cons.prems(1) obtain st1 where
    s: "renamePackage_step e modulePath oldPath newName pre m st = Inr st1" and
    r: "renamePackage_loop e modulePath oldPath newName pre ms' st1 = Inr st'"
    by (auto split: sum.splits)
  have mem: "m \<in> set ms" and sub: "set ms' \<subseteq> set ms"
    using Cons.prems(3) by auto
  from step_accounted [OF s Cons.prems(2) mem]
  have a1: "accounted e ms oldPath newName pre st1"
    and m1: "\<forall>k. seen_lookup (fst st) k \<longrightarrow> seen_lookup (fst st1) k"
    and s1: "PackagePath m \<noteq> oldPath @ ''_test'' \<and> HasPrefix (PackagePath m @ ''/'') (oldPath @ ''/'')
              \<and> ModuleInfo m = Some modulePath \<longrightarrow>
              (\<forall>f\<in>import_files e [m] (PackagePath m). seen_lookup (fst st1) (pgf_URI f, PackagePath m))
              \<and> (PackagePath m = oldPath \<longrightarrow>
                   (\<forall>f\<in>clause_files e [m] (PackagePath m). seen_lookup (fst st1) (pgf_URI f, PackagePath m)))"
    by blast+
  from Cons.IH [OF r a1 sub]
  have a2: "accounted e ms oldPath newName pre st'"
    and m2: "\<forall>k. seen_lookup (fst st1) k \<longrightarrow> seen_lookup (fst st') k"
    and s2: "\<forall>m\<in>set ms'. PackagePath m \<noteq> oldPath @ ''_test''
               \<and> HasPrefix (PackagePath m @ ''/'') (oldPath @ ''/'')
               \<and> ModuleInfo m = Some modulePath \<longrightarrow>
              (\<forall>f\<in>import_files e [m] (PackagePath m). seen_lookup (fst st') (pgf_URI f, PackagePath m))
              \<and> (PackagePath m = oldPath \<longrightarrow>
                   (\<forall>f\<in>clause_files e [m] (PackagePath m). seen_lookup (fst st') (pgf_URI f, PackagePath m)))"
    by blast+
  have s1': "PackagePath m \<noteq> oldPath @ ''_test'' \<and> HasPrefix (PackagePath m @ ''/'') (oldPath @ ''/'')
              \<and> ModuleInfo m = Some modulePath \<longrightarrow>
              (\<forall>f\<in>import_files e [m] (PackagePath m). seen_lookup (fst st') (pgf_URI f, PackagePath m))
              \<and> (PackagePath m = oldPath \<longrightarrow>
                   (\<forall>f\<in>clause_files e [m] (PackagePath m). seen_lookup (fst st') (pgf_URI f, PackagePath m)))"
    using s1 m2 by blast
  have mono: "\<forall>k. seen_lookup (fst st) k \<longrightarrow> seen_lookup (fst st') k"
    using m1 m2 by blast
  have all: "\<forall>x\<in>set (m # ms'). PackagePath x \<noteq> oldPath @ ''_test''
               \<and> HasPrefix (PackagePath x @ ''/'') (oldPath @ ''/'')
               \<and> ModuleInfo x = Some modulePath \<longrightarrow>
              (\<forall>f\<in>import_files e [x] (PackagePath x). seen_lookup (fst st') (pgf_URI f, PackagePath x))
              \<and> (PackagePath x = oldPath \<longrightarrow>
                   (\<forall>f\<in>clause_files e [x] (PackagePath x). seen_lookup (fst st') (pgf_URI f, PackagePath x)))"
  proof
    fix x assume "x \<in> set (m # ms')"
    then consider "x = m" | "x \<in> set ms'" by auto
    then show "PackagePath x \<noteq> oldPath @ ''_test''
               \<and> HasPrefix (PackagePath x @ ''/'') (oldPath @ ''/'')
               \<and> ModuleInfo x = Some modulePath \<longrightarrow>
              (\<forall>f\<in>import_files e [x] (PackagePath x). seen_lookup (fst st') (pgf_URI f, PackagePath x))
              \<and> (PackagePath x = oldPath \<longrightarrow>
                   (\<forall>f\<in>clause_files e [x] (PackagePath x). seen_lookup (fst st') (pgf_URI f, PackagePath x)))"
    proof cases
      case 1
      with s1' show ?thesis by blast
    next
      case 2
      with s2 show ?thesis by blast
    qed
  qed
  from a2 mono all show ?case by blast
qed

lemma affected_suffix:
  assumes "suffix = [] \<or> hd suffix = CHR ''/''"
  shows "oldPath @ suffix \<noteq> oldPath @ ''_test''"
    and "HasPrefix ((oldPath @ suffix) @ ''/'') (oldPath @ ''/'')"
    and "TrimPrefix (oldPath @ suffix) oldPath = suffix"
  using assms by (cases suffix; auto simp: HasPrefix_def TrimPrefix_def)+

lemma clause_files_mono: "set ms' \<subseteq> set ms \<Longrightarrow> clause_files e ms' p \<subseteq> clause_files e ms p"
  by (auto simp: clause_files_def)

lemma import_files_mono: "set ms' \<subseteq> set ms \<Longrightarrow> import_files e ms' p \<subseteq> import_files e ms p"
  by (auto simp: import_files_def)

text \<open>
  C5. When renamePackage succeeds, let \<open>m\<close> be a package of the workspace at the
  import path \<open>oldPath @ suffix\<close>, the suffix empty (the target) or starting with a
  slash (a descendant), in the module of the rename. In every file of a fully parsed
  reverse dependency of \<open>m\<close>, every import of that path is rewritten to the quoted
  path \<open>path.Join(path.Dir(oldPath), newName)\<close> followed by the suffix; and for the
  target the package clause of every file of the package is rewritten to
  \<open>newName\<close>. (Among the files visited for the path a URI names one parsed file; a
  file that is at once a file of the package and of one of its importers is set
  aside, since only the loop that reaches it first edits it.)
\<close>

theorem renamePackage_rewrites_paths_and_clause:
  assumes "renamePackage e modulePath oldPath newName allMetadata = Inr edits"
      and "m \<in> set allMetadata" and "PackagePath m = oldPath @ suffix"
      and "suffix = [] \<or> hd suffix = CHR ''/''"
      and "ModuleInfo m = Some modulePath"
      and "inj_on pgf_URI (clause_files e allMetadata (PackagePath m) \<union> import_files e allMetadata (PackagePath m))"
  shows "(\<forall>f\<in>import_files e [m] (PackagePath m). f \<notin> clause_files e allMetadata (PackagePath m) \<longrightarrow>
            import_rewritten e (oldPath @ suffix) (path_Join e (path_Dir e oldPath) newName @ suffix) f edits)
         \<and> (suffix = [] \<longrightarrow>
              (\<forall>f\<in>clause_files e [m] (PackagePath m). f \<notin> import_files e allMetadata (PackagePath m) \<longrightarrow>
                 clause_rewritten e newName f edits))"
proof -
  let ?pre = "path_Join e (path_Dir e oldPath) newName"
  let ?p = "PackagePath m"
  from assms(1) obtain st where
    loop: "renamePackage_loop e modulePath oldPath newName ?pre allMetadata (Map.empty, []) = Inr st"
    and ed: "edits = snd st"
    by (auto simp: renamePackage_def split: if_splits sum.splits)
  have init: "accounted e allMetadata oldPath newName ?pre (Map.empty, [])"
    by (simp add: accounted_def seen_lookup_def)
  from loop_accounted [OF loop init subset_refl]
  have acc: "accounted e allMetadata oldPath newName ?pre st"
    and seen: "\<forall>m\<in>set allMetadata. PackagePath m \<noteq> oldPath @ ''_test''
               \<and> HasPrefix (PackagePath m @ ''/'') (oldPath @ ''/'')
               \<and> ModuleInfo m = Some modulePath \<longrightarrow>
              (\<forall>f\<in>import_files e [m] (PackagePath m). seen_lookup (fst st) (pgf_URI f, PackagePath m))
              \<and> (PackagePath m = oldPath \<longrightarrow>
                   (\<forall>f\<in>clause_files e [m] (PackagePath m). seen_lookup (fst st) (pgf_URI f, PackagePath m)))"
    by blast+
  have aff: "?p \<noteq> oldPath @ ''_test''" "HasPrefix (?p @ ''/'') (oldPath @ ''/'')"
    and trim: "TrimPrefix ?p oldPath = suffix"
    using affected_suffix [OF assms(4), of oldPath] assms(3) by simp_all
  from seen assms(2,5) aff
  have si: "\<forall>f\<in>import_files e [m] ?p. seen_lookup (fst st) (pgf_URI f, ?p)"
    and sc: "?p = oldPath \<longrightarrow> (\<forall>f\<in>clause_files e [m] ?p. seen_lookup (fst st) (pgf_URI f, ?p))"
    by blast+
  have subI: "import_files e [m] ?p \<subseteq> import_files e allMetadata ?p"
    and subC: "clause_files e [m] ?p \<subseteq> clause_files e allMetadata ?p"
    using assms(2) by (auto intro!: import_files_mono clause_files_mono)
  have np: "new_path oldPath ?pre ?p = ?pre @ suffix"
    using trim by (simp add: new_path_def)
  have A: "import_rewritten e (oldPath @ suffix) (?pre @ suffix) f edits"
    if f: "f \<in> import_files e [m] ?p" and nc: "f \<notin> clause_files e allMetadata ?p" for f
  proof -
    from si f have "seen_lookup (fst st) (pgf_URI f, ?p)" by blast
    with acc consider
      (c) f' where "f' \<in> clause_files e allMetadata ?p" "pgf_URI f' = pgf_URI f"
    | (i) f' where "f' \<in> import_files e allMetadata ?p" "pgf_URI f' = pgf_URI f"
        "import_rewritten e ?p (new_path oldPath ?pre ?p) f' (snd st)"
      unfolding accounted_def by blast
    then show ?thesis
    proof cases
      case c
      with assms(6) f subI have "f' = f" by (auto dest!: inj_onD)
      with c nc show ?thesis by simp
    next
      case i
      with assms(6) f subI have "f' = f" by (auto dest!: inj_onD)
      with i np ed assms(3) show ?thesis by simp
    qed
  qed
  have B: "clause_rewritten e newName f edits"
    if s0: "suffix = []" and f: "f \<in> clause_files e [m] ?p" and ni: "f \<notin> import_files e allMetadata ?p" for f
  proof -
    have po: "?p = oldPath" using assms(3) s0 by simp
    with sc f have "seen_lookup (fst st) (pgf_URI f, ?p)" by blast
    with acc consider
      (c) f' where "f' \<in> clause_files e allMetadata ?p" "pgf_URI f' = pgf_URI f"
        "clause_rewritten e (clause_name oldPath newName ?p) f' (snd st)"
    | (i) f' where "f' \<in> import_files e allMetadata ?p" "pgf_URI f' = pgf_URI f"
      unfolding accounted_def by blast
    then show ?thesis
    proof cases
      case c
      with assms(6) f subC have "f' = f" by (auto dest!: inj_onD)
      with c po ed show ?thesis by (simp add: clause_name_def)
    next
      case i
      with assms(6) f subC have "f' = f" by (auto dest!: inj_onD)
      with i ni show ?thesis by simp
    qed
  qed
  show ?thesis using A B by blast
qed

text \<open>
  The example: the workspace above with the package a/old/sub added, which b/b.go
  imports at offset 40. Renaming a/old to new rewrites that import to "a/new/sub",
  the import of a/old to "a/new", and the package clause of old/old.go to new.
\<close>

definition ex_sub_import :: ImportSpec where
  "ex_sub_import = \<lparr> imp_Name = None, Path_ValuePos = 40, Path_Value = CHR 0x22 # ''a/old/sub'' @ [CHR 0x22] \<rparr>"

definition ex_b2_file :: ParsedGoFile where
  "ex_b2_file = ex_b_file \<lparr> File_Imports := [ex_import_spec, ex_sub_import] \<rparr>"

definition ex_b2_pkg :: Package where
  "ex_b2_pkg = ex_b_pkg \<lparr> CompiledGoFiles := [ex_b2_file] \<rparr>"

definition ex_sub_meta :: Metadata where
  "ex_sub_meta = \<lparr> PackageID = ''a/old/sub'', PackageName = ''sub'', PackagePath = ''a/old/sub'',
                   ModuleInfo = Some ''a'' \<rparr>"

definition ex_ws2_metadata :: "Metadata list" where
  "ex_ws2_metadata = [ex_clause_meta ''old'', ex_sub_meta, ex_b_meta]"

definition ex_ws2_env :: env where
  "ex_ws2_env =
     ex_ws_env \<lparr> GetReverseDependencies :=
                   (\<lambda>i. if i = ''a/old'' \<or> i = ''a/old/sub'' then Inr [ex_b2_pkg] else Inr []),
                 AllValidMetadata := Inr ex_ws2_metadata \<rparr>"

definition ex_ws2_edits :: "TextEdit edit_map" where
  "ex_ws2_edits =
     [(''old/old.go'', [\<lparr> Range = ((0, 8), (0, 11)), NewText = ''new'', AnnotationID = [] \<rparr>]),
      (''b/b.go'', [\<lparr> Range = ((0, 30), (0, 37)), NewText = CHR 0x22 # ''a/new'' @ [CHR 0x22], AnnotationID = [] \<rparr>,
                    \<lparr> Range = ((0, 60), (0, 63)), NewText = ''new'', AnnotationID = [] \<rparr>,
                    \<lparr> Range = ((0, 40), (0, 51)), NewText = CHR 0x22 # ''a/new/sub'' @ [CHR 0x22],
                      AnnotationID = [] \<rparr>])]"

lemma ex_ws2_files:
  "clause_files ex_ws2_env ex_ws2_metadata ''a/old/sub'' = {ex_clause_file ''old''}"
  "import_files ex_ws2_env ex_ws2_metadata ''a/old/sub'' = {ex_b2_file}"
  "import_files ex_ws2_env [ex_sub_meta] ''a/old/sub'' = {ex_b2_file}"
  "clause_files ex_ws2_env ex_ws2_metadata ''a/old'' = {ex_clause_file ''old''}"
  "import_files ex_ws2_env ex_ws2_metadata ''a/old'' = {ex_b2_file}"
  "clause_files ex_ws2_env [ex_clause_meta ''old''] ''a/old'' = {ex_clause_file ''old''}"
  by (auto simp: clause_files_def import_files_def ex_ws2_env_def ex_ws_env_def ex_clause_env_def
        ex_env_def ex_ws2_metadata_def ex_sub_meta_def ex_clause_meta_def ex_b_meta_def ex_b2_pkg_def
        ex_b_pkg_def ex_pkg_def)

theorem renamePackage_rewrites_paths_and_clause_witness:
  "renamePackage ex_ws2_env ''a'' ''a/old'' ''new'' ex_ws2_metadata = Inr ex_ws2_edits
   \<and> import_rewritten ex_ws2_env ''a/old/sub'' ''a/new/sub'' ex_b2_file ex_ws2_edits
   \<and> clause_rewritten ex_ws2_env ''new'' (ex_clause_file ''old'') ex_ws2_edits"
proof -
  have ev: "renamePackage ex_ws2_env ''a'' ''a/old'' ''new'' ex_ws2_metadata = Inr ex_ws2_edits"
    by code_simp
  have uris: "pgf_URI (ex_clause_file ''old'') \<noteq> pgf_URI ex_b2_file"
    by code_simp
  have ne: "ex_b2_file \<noteq> ex_clause_file ''old''"
    using uris by auto
  have p1: "PackagePath ex_sub_meta = ''a/old'' @ ''/sub''" and m1: "ModuleInfo ex_sub_meta = Some ''a''"
    and p1': "PackagePath ex_sub_meta = ''a/old/sub''"
    by code_simp+
  have p2: "PackagePath (ex_clause_meta ''old'') = ''a/old'' @ []" and m2: "ModuleInfo (ex_clause_meta ''old'') = Some ''a''"
    and p2': "PackagePath (ex_clause_meta ''old'') = ''a/old''"
    by code_simp+
  have mem: "ex_sub_meta \<in> set ex_ws2_metadata" "ex_clause_meta ''old'' \<in> set ex_ws2_metadata"
    by (simp_all add: ex_ws2_metadata_def)
  have inj1: "inj_on pgf_URI (clause_files ex_ws2_env ex_ws2_metadata (PackagePath ex_sub_meta)
                \<union> import_files ex_ws2_env ex_ws2_metadata (PackagePath ex_sub_meta))"
    using uris by (auto simp: p1' ex_ws2_files inj_on_def)
  have inj2: "inj_on pgf_URI (clause_files ex_ws2_env ex_ws2_metadata (PackagePath (ex_clause_meta ''old''))
                \<union> import_files ex_ws2_env ex_ws2_metadata (PackagePath (ex_clause_meta ''old'')))"
    using uris by (auto simp: p2' ex_ws2_files inj_on_def)
  have pj: "path_Join ex_ws2_env (path_Dir ex_ws2_env ''a/old'') ''new'' = ''a/new''"
    by code_simp
  have a: "import_rewritten ex_ws2_env ''a/old/sub'' ''a/new/sub'' ex_b2_file ex_ws2_edits"
    using renamePackage_rewrites_paths_and_clause [OF ev mem(1) p1 _ m1 inj1] ne
    by (simp add: p1' ex_ws2_files pj)
  have b: "clause_rewritten ex_ws2_env ''new'' (ex_clause_file ''old'') ex_ws2_edits"
    using renamePackage_rewrites_paths_and_clause [OF ev mem(2) p2 _ m2 inj2] ne
    by (simp add: p2' ex_ws2_files)
  from ev a b show ?thesis by blast
qed

end
